theory Spec2Isabelle
  imports Main "HOL-Library.FSet"
begin

section \<open>Strings\<close>

text \<open>
  A JavaScript string is a sequence of UTF-16 code units: indexing (\<open>source[position]\<close>),
  \<open>length\<close>, \<open>slice\<close> and the regular expressions of the kernel (none has the \<open>u\<close>
  flag) all work on code units. A code unit is modelled by its number, so that the lambda
  sign U+03BB is the single unit 955, as it is for the parser.
\<close>

type_synonym jschar = nat
type_synonym jsstring = "jschar list"

text \<open>A text of the ASCII range as a JavaScript string, for the literals below.\<close>

definition js :: "string \<Rightarrow> jsstring" where
  "js s = map of_char s"

section \<open>AST node types\<close>

text \<open>
  The three classes \<open>Variable\<close>, \<open>Abstraction\<close> and \<open>Application\<close>, with the fields in
  the order of the constructors' parameters:
  \<open>Variable name fromSubstitution sourceId\<close>,
  \<open>Abstraction param body fromSubstitution sourceId\<close>,
  \<open>Application func arg id fromSubstitution sourceId\<close>.
  \<open>null\<close> is \<open>None\<close>.
\<close>

datatype expr =
    Variable jsstring bool "int option"
  | Abstraction jsstring expr bool "int option"
  | Application expr expr "int option" bool "int option"

fun fromSubstitution :: "expr \<Rightarrow> bool" where
  "fromSubstitution (Variable name fs sid) = fs"
| "fromSubstitution (Abstraction param body fs sid) = fs"
| "fromSubstitution (Application func arg i fs sid) = fs"

fun sourceId :: "expr \<Rightarrow> int option" where
  "sourceId (Variable name fs sid) = sid"
| "sourceId (Abstraction param body fs sid) = sid"
| "sourceId (Application func arg i fs sid) = sid"

text \<open>The method \<open>clone(fromSubstitution, sourceId)\<close> of the three classes.\<close>

fun clone :: "expr \<Rightarrow> bool \<Rightarrow> int option \<Rightarrow> expr" where
  "clone (Variable name fs sid) fromSub srcId =
     Variable name (fromSub \<or> fs) (if srcId \<noteq> None then srcId else sid)"
| "clone (Abstraction param body fs sid) fromSub srcId =
     Abstraction param (clone body fromSub srcId)
       (fromSub \<or> fs) (if srcId \<noteq> None then srcId else sid)"
| "clone (Application func arg i fs sid) fromSub srcId =
     Application (clone func fromSub srcId) (clone arg fromSub srcId) i
       (fromSub \<or> fs) (if srcId \<noteq> None then srcId else sid)"

section \<open>Parser\<close>

text \<open>
  Character predicates. Each is a regular expression tested on \<open>currentChar()\<close>, which is
  \<open>undefined\<close> (here \<open>None\<close>) at the end of the source; \<open>RegExp.test\<close> then tests the
  text \<open>undefined\<close>, which holds letters and no white space. \<open>\s\<close> is the white space and
  line terminator units of ECMAScript, the same set that \<open>trim\<close> removes.
\<close>

definition isWhitespaceUnit :: "jschar \<Rightarrow> bool" where
  "isWhitespaceUnit c \<longleftrightarrow>
     c \<in> {9, 10, 11, 12, 13, 32, 160, 5760, 8232, 8233, 8239, 8287, 12288, 65279}
     \<or> (8192 \<le> c \<and> c \<le> 8202)"

definition isLetterUnit :: "jschar \<Rightarrow> bool" where
  "isLetterUnit c \<longleftrightarrow> (97 \<le> c \<and> c \<le> 122) \<or> (65 \<le> c \<and> c \<le> 90)"

definition isWordUnit :: "jschar \<Rightarrow> bool" where
  "isWordUnit c \<longleftrightarrow> isLetterUnit c \<or> (48 \<le> c \<and> c \<le> 57) \<or> c = 95 \<or> c = 39"

fun isWhitespace :: "jschar option \<Rightarrow> bool" where
  "isWhitespace None = False"
| "isWhitespace (Some c) = isWhitespaceUnit c"

fun isLambdaStart :: "jschar option \<Rightarrow> bool" where
  "isLambdaStart None = False"
| "isLambdaStart (Some c) = (c = 955 \<or> c = 92)"

fun isVariableStart :: "jschar option \<Rightarrow> bool" where
  "isVariableStart None = True"
| "isVariableStart (Some c) = isLetterUnit c"

fun isVariableChar :: "jschar option \<Rightarrow> bool" where
  "isVariableChar None = True"
| "isVariableChar (Some c) = isWordUnit c"

definition isAtomStart :: "jschar option \<Rightarrow> bool" where
  "isAtomStart char \<longleftrightarrow> char = Some 40 \<or> isLambdaStart char \<or> isVariableStart char"

text \<open>\<open>String.prototype.trim\<close>, and \<open>slice(a, b)\<close> for indices that are not negative.\<close>

definition trim :: "jsstring \<Rightarrow> jsstring" where
  "trim s = rev (dropWhile isWhitespaceUnit (rev (dropWhile isWhitespaceUnit s)))"

definition slice :: "jsstring \<Rightarrow> nat \<Rightarrow> nat \<Rightarrow> jsstring" where
  "slice s a b = take (b - a) (drop a s)"

text \<open>
  The parser object holds \<open>source\<close>, which never changes after the constructor, and
  \<open>position\<close>, which its methods advance: each method is a function of the source and
  the position that returns the new position with its result. \<open>source[position]\<close> past
  the end is \<open>undefined\<close>.
\<close>

definition currentChar :: "jsstring \<Rightarrow> nat \<Rightarrow> jschar option" where
  "currentChar source position =
     (if position < length source then Some (source ! position) else None)"

definition hasMore :: "jsstring \<Rightarrow> nat \<Rightarrow> bool" where
  "hasMore source position \<longleftrightarrow> position < length source"

function skipWhitespace :: "jsstring \<Rightarrow> nat \<Rightarrow> nat" where
  "skipWhitespace source position =
     (if hasMore source position \<and> isWhitespace (currentChar source position)
      then skipWhitespace source (Suc position) else position)"
  by pat_completeness auto
termination
  by (relation "measure (\<lambda>(source, position). length source - position)")
     (auto simp: hasMore_def)

declare skipWhitespace.simps [simp del]

text \<open>
  The decimal digits of a number that is not negative, as the template literal writes
  \<open>this.position\<close>. 48 is the digit zero.
\<close>

fun decimal :: "nat \<Rightarrow> jsstring" where
  "decimal n = (if n < 10 then [48 + n] else decimal (n div 10) @ [48 + n mod 10])"

declare decimal.simps [simp del]

text \<open>
  What \<open>throw\<close> raises: an object of one of JavaScript's error classes, with its
  \<open>message\<close>. The kernel constructs objects of the class \<open>Error\<close> only.
\<close>

datatype error_class = Error | SyntaxError

record thrown =
  err_class :: error_class
  err_message :: jsstring

text \<open>
  \<open>Parser.error\<close> returns \<open>new Error(...)\<close>, whose one argument is the text of the template
  literal: the message, \<open>at position\<close> and the position, then the context and the pointer
  on two more lines, each after a line feed and two blanks. The object has no other field
  that the parser sets. 10 is the line feed, 32 the blank, 94 the caret.
\<close>

definition parserError :: "jsstring \<Rightarrow> nat \<Rightarrow> jsstring \<Rightarrow> thrown" where
  "parserError source pos msg =
     (let context = slice source (pos - 10) (pos + 10);
          pointer = replicate (min 10 pos) 32 @ [94]
      in \<lparr> err_class = Error,
           err_message = msg @ js '' at position '' @ decimal pos
             @ [10, 32, 32] @ context @ [10, 32, 32] @ pointer \<rparr>)"

text \<open>
  \<open>parseVariableName\<close>; its \<open>while\<close> loop is \<open>scanVariableName\<close>. A \<open>throw\<close> is the \<open>Inl\<close> of
  the result, here and below, and every caller passes it on.
\<close>

function scanVariableName :: "jsstring \<Rightarrow> nat \<Rightarrow> nat" where
  "scanVariableName source position =
     (if hasMore source position \<and> isVariableChar (currentChar source position)
      then scanVariableName source (Suc position) else position)"
  by pat_completeness auto
termination
  by (relation "measure (\<lambda>(source, position). length source - position)")
     (auto simp: hasMore_def)

declare scanVariableName.simps [simp del]

definition parseVariableName :: "jsstring \<Rightarrow> nat \<Rightarrow> thrown + (jsstring \<times> nat)" where
  "parseVariableName source startPosition =
     (let pos = scanVariableName source startPosition;
          name = slice source startPosition pos
      in if length name = 0 then Inl (parserError source pos (js ''Expected variable name''))
         else Inr (name, pos))"

text \<open>
  \<open>parseAtom\<close> and \<open>parseExpr\<close>; the \<open>while (true)\<close> loop of \<open>parseExpr\<close> is
  \<open>parseExprLoop\<close>, which takes \<open>result\<close>. 40 and 41 are the parentheses, 46 the dot, 39 the
  apostrophe. The loop calls \<open>parseAtom\<close> again at the position the last call returned:
  the functions terminate because a successful \<open>parseAtom\<close> moves the position forward
  (\<open>parse_progress\<close>).
\<close>

function parseAtom :: "jsstring \<Rightarrow> nat \<Rightarrow> thrown + (expr \<times> nat)"
  and parseExpr :: "jsstring \<Rightarrow> nat \<Rightarrow> thrown + (expr \<times> nat)"
  and parseExprLoop :: "jsstring \<Rightarrow> expr \<Rightarrow> nat \<Rightarrow> thrown + (expr \<times> nat)"
where
  "parseAtom source position =
     (let p = skipWhitespace source position; char = currentChar source p in
      if char = Some 40 then
        (case parseExpr source (Suc p) of
           Inl err \<Rightarrow> Inl err
         | Inr (innerExpr, p1) \<Rightarrow>
             (let p2 = skipWhitespace source p1 in
              if currentChar source p2 \<noteq> Some 41
              then Inl (parserError source p2 (js ''Expected '' @ [39, 41, 39]))
              else Inr (innerExpr, Suc p2)))
      else if isLambdaStart char then
        (let p1 = skipWhitespace source (Suc p) in
         case parseVariableName source p1 of
           Inl err \<Rightarrow> Inl err
         | Inr (parameterName, p2) \<Rightarrow>
             (let p3 = skipWhitespace source p2 in
              if currentChar source p3 \<noteq> Some 46
              then Inl (parserError source p3
                     (js ''Expected '' @ [39, 46, 39] @ js '' after lambda parameter''))
              else (case parseExpr source (Suc p3) of
                      Inl err \<Rightarrow> Inl err
                    | Inr (body, p4) \<Rightarrow> Inr (Abstraction parameterName body False None, p4))))
      else if isVariableStart char then
        (case parseVariableName source p of
           Inl err \<Rightarrow> Inl err
         | Inr (name, p1) \<Rightarrow> Inr (Variable name False None, p1))
      else Inl (parserError source p
             (js ''Unexpected character '' @ [39]
              @ (case char of None \<Rightarrow> js ''undefined'' | Some c \<Rightarrow> [c]) @ [39])))"
| "parseExpr source position =
     (let p = skipWhitespace source position in
      case parseAtom source p of
        Inl err \<Rightarrow> Inl err
      | Inr (result, p1) \<Rightarrow> parseExprLoop source result p1)"
| "parseExprLoop source result position =
     (let p = skipWhitespace source position;
          char = currentChar source p;
          canContinue = (hasMore source p \<and> char \<noteq> Some 41 \<and> isAtomStart char)
      in if \<not> canContinue then Inr (result, p)
         else (case parseAtom source p of
                 Inl err \<Rightarrow> Inl err
               | Inr (nextAtom, p1) \<Rightarrow>
                   parseExprLoop source (Application result nextAtom None False None) p1))"
  by pat_completeness auto

lemma skipWhitespace_ge: "position \<le> skipWhitespace source position"
  by (induction source position rule: skipWhitespace.induct)
     (subst skipWhitespace.simps, auto)

lemma scanVariableName_ge: "position \<le> scanVariableName source position"
  by (induction source position rule: scanVariableName.induct)
     (subst scanVariableName.simps, auto)

lemma parseVariableName_ge:
  "parseVariableName source p = Inr (name, p') \<Longrightarrow> p \<le> p'"
  using scanVariableName_ge [of p source]
  by (auto simp: parseVariableName_def Let_def split: if_splits)

lemma currentChar_Some: "currentChar source p = Some c \<Longrightarrow> p < length source"
  by (simp add: currentChar_def split: if_splits)

lemma parse_progress:
  "parseAtom_parseExpr_parseExprLoop_dom (Inl (s, p)) \<Longrightarrow>
     (\<forall>e p'. parseAtom s p = Inr (e, p') \<longrightarrow> skipWhitespace s p < p')"
  "parseAtom_parseExpr_parseExprLoop_dom (Inr (Inl (s, p))) \<Longrightarrow>
     (\<forall>e p'. parseExpr s p = Inr (e, p') \<longrightarrow> p \<le> p')"
  "parseAtom_parseExpr_parseExprLoop_dom (Inr (Inr (s, r, p))) \<Longrightarrow>
     (\<forall>e p'. parseExprLoop s r p = Inr (e, p') \<longrightarrow> p \<le> p')"
proof (induction rule: parseAtom_parseExpr_parseExprLoop.pinduct)
  case (1 source position)
  let ?q = "skipWhitespace source position"
  show ?case
  proof (intro allI impI)
    fix e p' assume res: "parseAtom source position = Inr (e, p')"
    show "?q < p'"
    proof (cases "currentChar source ?q = Some 40")
      case True
      from res True obtain p1 where pe: "parseExpr source (Suc ?q) = Inr (e, p1)"
        and p': "p' = Suc (skipWhitespace source p1)"
        by (auto simp: parseAtom.psimps [OF "1.hyps"] Let_def split: sum.splits if_splits)
      from "1.IH"(1) [OF refl refl True] pe have "Suc ?q \<le> p1" by blast
      with skipWhitespace_ge [of p1 source] p' show ?thesis by simp
    next
      case notParen: False
      show ?thesis
      proof (cases "isLambdaStart (currentChar source ?q)")
        case True
        let ?p1 = "skipWhitespace source (Suc ?q)"
        from res notParen True obtain name p2 body where
          pv: "parseVariableName source ?p1 = Inr (name, p2)"
          and dot: "currentChar source (skipWhitespace source p2) = Some 46"
          and pe: "parseExpr source (Suc (skipWhitespace source p2)) = Inr (body, p')"
          by (auto simp: parseAtom.psimps [OF "1.hyps"] Let_def split: sum.splits if_splits)
        from "1.IH"(2) [OF refl refl notParen True refl pv refl refl] dot pe
        have "Suc (skipWhitespace source p2) \<le> p'" by simp
        moreover have "?p1 \<le> p2" using pv by (rule parseVariableName_ge)
        moreover have "Suc ?q \<le> ?p1" by (rule skipWhitespace_ge)
        moreover have "p2 \<le> skipWhitespace source p2" by (rule skipWhitespace_ge)
        ultimately show ?thesis by simp
      next
        case False
        with res notParen obtain name where
          pv: "parseVariableName source ?q = Inr (name, p')"
          by (auto simp: parseAtom.psimps [OF "1.hyps"] Let_def split: sum.splits if_splits)
        then have "scanVariableName source ?q = p'" "slice source ?q p' \<noteq> []"
          by (auto simp: parseVariableName_def Let_def split: if_splits)
        then show ?thesis
          using scanVariableName_ge [of ?q source]
          by (cases "?q = p'") (auto simp: slice_def)
      qed
    qed
  qed
next
  case (2 source position)
  show ?case
  proof (intro allI impI)
    fix e p' assume res: "parseExpr source position = Inr (e, p')"
    let ?q = "skipWhitespace source position"
    from res obtain r p1 where pa: "parseAtom source ?q = Inr (r, p1)"
      and pl: "parseExprLoop source r p1 = Inr (e, p')"
      by (auto simp: parseExpr.psimps [OF "2.hyps"] Let_def split: sum.splits)
    from "2.IH"(1) [OF refl] pa have "skipWhitespace source ?q < p1" by blast
    moreover from "2.IH"(2) [OF refl pa refl] pl have "p1 \<le> p'" by blast
    moreover have "position \<le> ?q" "?q \<le> skipWhitespace source ?q"
      by (rule skipWhitespace_ge)+
    ultimately show "position \<le> p'" by simp
  qed
next
  case (3 source result position)
  show ?case
  proof (intro allI impI)
    fix e p' assume res: "parseExprLoop source result position = Inr (e, p')"
    let ?q = "skipWhitespace source position"
    let ?c = "hasMore source ?q \<and> currentChar source ?q \<noteq> Some 41
                \<and> isAtomStart (currentChar source ?q)"
    have ge: "position \<le> ?q" by (rule skipWhitespace_ge)
    show "position \<le> p'"
    proof (cases ?c)
      case False
      with res have "p' = ?q"
        by (auto simp: parseExprLoop.psimps [OF "3.hyps"] Let_def split: sum.splits)
      with ge show ?thesis by simp
    next
      case True
      with res obtain a p1 where pa: "parseAtom source ?q = Inr (a, p1)"
        and pl: "parseExprLoop source (Application result a None False None) p1 = Inr (e, p')"
        by (auto simp: parseExprLoop.psimps [OF "3.hyps"] Let_def split: sum.splits)
      have nn: "\<not> \<not> ?c" using True by simp
      from "3.IH"(1) [OF refl refl refl nn] pa have "skipWhitespace source ?q < p1" by blast
      moreover from "3.IH"(2) [OF refl refl refl nn pa refl] pl have "p1 \<le> p'" by blast
      moreover have "?q \<le> skipWhitespace source ?q" by (rule skipWhitespace_ge)
      ultimately show ?thesis using ge by simp
    qed
  qed
qed

termination parseAtom
proof (relation "measure (\<lambda>x. case x of Inl (s, p) \<Rightarrow> 3 * (length s - p)
     | Inr (Inl (s, p)) \<Rightarrow> 3 * (length s - p) + 2
     | Inr (Inr (s, r, p)) \<Rightarrow> 3 * (length s - p) + 1)", goal_cases)
  case 1
  show ?case by simp
next
  case (2 source position x xa)
  then have "currentChar source x = Some 40" by simp
  then have "x < length source" by (rule currentChar_Some)
  moreover have "position \<le> x" using 2 skipWhitespace_ge by simp
  ultimately show ?case by simp
next
  case (3 source position x xa xaa b xb y xc)
  have "Suc x \<le> xaa" using 3 skipWhitespace_ge by simp
  moreover have "xaa \<le> y" using 3 parseVariableName_ge [of source xaa xb y] by simp
  moreover have "y \<le> xc" using 3 skipWhitespace_ge by simp
  moreover have "position \<le> x" using 3 skipWhitespace_ge by simp
  moreover have "x < length source"
    using 3 by (cases "currentChar source x") (auto dest!: currentChar_Some)
  ultimately show ?case by simp
next
  case (4 source position x)
  then show ?case using skipWhitespace_ge [of position source] by simp
next
  case (5 source position x b xa y)
  from parse_progress(1) [OF 5(4)] 5 have "skipWhitespace source x < y" by auto
  moreover have "position \<le> x" using 5 skipWhitespace_ge by simp
  moreover have "x \<le> skipWhitespace source x" by (rule skipWhitespace_ge)
  ultimately show ?case using 5 by auto
next
  case (6 source result position x xa xb)
  then show ?case using skipWhitespace_ge [of position source] by simp
next
  case (7 source result position x xa xb b xc y)
  from parse_progress(1) [OF 7(7)] 7 have "skipWhitespace source x < y" by auto
  moreover have "position \<le> x" using 7 skipWhitespace_ge by simp
  moreover have "x \<le> skipWhitespace source x" by (rule skipWhitespace_ge)
  moreover have "x < length source" using 7 by (simp add: hasMore_def)
  ultimately show ?case by simp
qed

declare parseAtom.simps [simp del] parseExpr.simps [simp del] parseExprLoop.simps [simp del]

text \<open>
  The method \<open>Parser.parse\<close> and the exported \<open>parse\<close>, whose constructor trims the
  input. A thrown \<open>Error\<close> is the \<open>Inl\<close> of the result.
\<close>

definition parserParse :: "jsstring \<Rightarrow> thrown + expr" where
  "parserParse source =
     (case parseExpr source 0 of
        Inl err \<Rightarrow> Inl err
      | Inr (result, p) \<Rightarrow>
          (let p1 = skipWhitespace source p in
           if hasMore source p1
           then Inl (parserError source p1 (js ''Unexpected character (expected end of input)''))
           else Inr result))"

definition parse :: "jsstring \<Rightarrow> thrown + expr" where
  "parse input = parserParse (trim input)"

section \<open>Beta reduction\<close>

text \<open>
  \<open>freeVariables\<close> returns a JavaScript \<open>Set\<close> of strings, of which only membership is
  ever used: a finite set.
\<close>

fun freeVariables :: "expr \<Rightarrow> jsstring fset" where
  "freeVariables (Variable name fs sid) = {|name|}"
| "freeVariables (Abstraction param body fs sid) = freeVariables body |-| {|param|}"
| "freeVariables (Application func arg i fs sid) = freeVariables func |\<union>| freeVariables arg"

text \<open>
  \<open>freshName\<close>: the loop \<open>while (avoid.has(fresh)) fresh += "'"\<close>. The apostrophe is the
  code unit 39. Each round leaves behind one member of the avoid set that is no longer than
  the name, so the loop ends.
\<close>

function freshName :: "jsstring \<Rightarrow> jsstring fset \<Rightarrow> jsstring" where
  "freshName fresh avoid = (if fresh |\<in>| avoid then freshName (fresh @ [39]) avoid else fresh)"
  by pat_completeness auto
termination
proof (relation
    "measure (\<lambda>(fresh, avoid). card {x. x |\<in>| avoid \<and> length fresh \<le> length x})")
  show "wf (measure
      (\<lambda>(fresh, avoid). card {x. x |\<in>| avoid \<and> length fresh \<le> length (x::jsstring)}))"
    by simp
next
  fix fresh :: jsstring and avoid :: "jsstring fset"
  assume mem: "fresh |\<in>| avoid"
  let ?A = "{x. x |\<in>| avoid \<and> length (fresh @ [39]) \<le> length x}"
  let ?B = "{x. x |\<in>| avoid \<and> length fresh \<le> length x}"
  have fin: "finite ?B"
    by (rule finite_subset [of _ "fset avoid"]) auto
  have "?A \<subseteq> ?B" by auto
  moreover have "fresh \<in> ?B" using mem by simp
  moreover have "fresh \<notin> ?A" by simp
  ultimately have "?A \<subset> ?B" by blast
  then have "card ?A < card ?B"
    using fin by (rule psubset_card_mono [rotated])
  then show "((fresh @ [39], avoid), (fresh, avoid))
      \<in> measure (\<lambda>(fresh, avoid). card {x. x |\<in>| avoid \<and> length fresh \<le> length x})"
    by simp
qed

declare freshName.simps [simp del]

text \<open>
  For the termination of \<open>substitute\<close>: the number of nodes of a tree, and the trees that
  are a single variable.
\<close>

fun nodeCount :: "expr \<Rightarrow> nat" where
  "nodeCount (Variable name fs sid) = 1"
| "nodeCount (Abstraction param body fs sid) = Suc (nodeCount body)"
| "nodeCount (Application func arg i fs sid) = Suc (nodeCount func + nodeCount arg)"

fun isVariable :: "expr \<Rightarrow> bool" where
  "isVariable (Variable name fs sid) = True"
| "isVariable (Abstraction param body fs sid) = False"
| "isVariable (Application func arg i fs sid) = False"

text \<open>
  \<open>substitute(expr, varName, replacement, markAsSubstituted, sourceId)\<close>. In the renaming
  branch the function is called on its own result (\<open>renamedBody\<close>); it terminates because
  replacing a variable by a variable keeps the number of nodes
  (\<open>substitute_rename_nodeCount\<close>). \<open>new Variable(newParam)\<close> has the defaults \<open>false\<close> and
  \<open>null\<close>.
\<close>

function substitute :: "expr \<Rightarrow> jsstring \<Rightarrow> expr \<Rightarrow> bool \<Rightarrow> int option \<Rightarrow> expr" where
  "substitute (Variable name fs sid) varName replacement markAsSubstituted srcId =
     (if name = varName then clone replacement markAsSubstituted srcId
      else Variable name fs sid)"
| "substitute (Abstraction param body fs sid) varName replacement markAsSubstituted srcId =
     (if param = varName then Abstraction param body fs sid
      else if param |\<in>| freeVariables replacement then
        (let allFree = finsert varName (freeVariables replacement |\<union>| freeVariables body);
             newParam = freshName param allFree;
             renamedBody = substitute body param (Variable newParam False None) False None
         in Abstraction newParam
              (substitute renamedBody varName replacement markAsSubstituted srcId) fs sid)
      else Abstraction param
             (substitute body varName replacement markAsSubstituted srcId) fs sid)"
| "substitute (Application func arg i fs sid) varName replacement markAsSubstituted srcId =
     Application (substitute func varName replacement markAsSubstituted srcId)
                 (substitute arg varName replacement markAsSubstituted srcId) i fs sid"
  by pat_completeness auto

lemma nodeCount_clone: "isVariable r \<Longrightarrow> nodeCount (clone r m s) = 1"
  by (cases r) simp_all

lemma substitute_rename_nodeCount:
  "substitute_dom (e, v, r, m, s) \<Longrightarrow> isVariable r \<Longrightarrow>
     nodeCount (substitute e v r m s) = nodeCount e"
  by (induction e v r m s rule: substitute.pinduct)
     (simp_all add: substitute.psimps nodeCount_clone Let_def)

termination substitute
  by (relation "measure (\<lambda>(e, v, r, m, s). nodeCount e)")
     (simp_all add: substitute_rename_nodeCount)

declare substitute.simps [simp del]

fun isRedex :: "expr \<Rightarrow> bool" where
  "isRedex (Application (Abstraction param body lfs lsid) arg i fs sid) = True"
| "isRedex e = False"

text \<open>
  \<open>numberRedexes(expr, counter)\<close> increments the shared counter object; here the counter is
  passed in and returned. JavaScript evaluates the arguments of \<open>new Application\<close> from left
  to right, after the id was taken.
\<close>

fun numberRedexes :: "expr \<Rightarrow> int \<Rightarrow> expr \<times> int" where
  "numberRedexes (Variable name fs sid) counter = (Variable name fs sid, counter)"
| "numberRedexes (Abstraction param body fs sid) counter =
     (let (body', counter') = numberRedexes body counter
      in (Abstraction param body' fs sid, counter'))"
| "numberRedexes (Application func arg i fs sid) counter =
     (let (ident, c0) = (if isRedex (Application func arg i fs sid)
                         then (Some counter, counter + 1) else (None, counter));
          (func', c1) = numberRedexes func c0;
          (arg', c2) = numberRedexes arg c1
      in (Application func' arg' ident fs sid, c2))"

text \<open>The call \<open>numberRedexes(expr)\<close>, with the default counter \<open>{ val: 1 }\<close>.\<close>

definition numberRedexesFrom1 :: "expr \<Rightarrow> expr" where
  "numberRedexesFrom1 e = fst (numberRedexes e 1)"

fun clearSubstitutionMarks :: "expr \<Rightarrow> expr" where
  "clearSubstitutionMarks (Variable name fs sid) = Variable name False None"
| "clearSubstitutionMarks (Abstraction param body fs sid) =
     Abstraction param (clearSubstitutionMarks body) False None"
| "clearSubstitutionMarks (Application func arg i fs sid) =
     Application (clearSubstitutionMarks func) (clearSubstitutionMarks arg) i False None"

text \<open>
  \<open>reduceAt(expr, targetId)\<close>. \<open>expr.id === targetId\<close> is equality of two values that are a
  number or \<open>null\<close>. The second branch of the inner case is not reached: \<open>isRedex\<close> says that
  \<open>func\<close> is an abstraction.
\<close>

fun reduceAt :: "expr \<Rightarrow> int option \<Rightarrow> expr" where
  "reduceAt (Variable name fs sid) targetId = Variable name fs sid"
| "reduceAt (Abstraction param body fs sid) targetId =
     Abstraction param (reduceAt body targetId) fs sid"
| "reduceAt (Application func arg i fs sid) targetId =
     (if i = targetId \<and> isRedex (Application func arg i fs sid) then
        (case func of
           Abstraction param body lfs lsid \<Rightarrow> substitute body param arg True targetId
         | _ \<Rightarrow> Application func arg i fs sid)
      else Application (reduceAt func targetId) (reduceAt arg targetId) i fs sid)"

text \<open>\<open>getRedexCount\<close>: the inner \<open>traverse\<close> with the captured \<open>count\<close> passed through.\<close>

fun getRedexCount_traverse :: "expr \<Rightarrow> int \<Rightarrow> int" where
  "getRedexCount_traverse (Variable name fs sid) count = count"
| "getRedexCount_traverse (Abstraction param body fs sid) count =
     getRedexCount_traverse body count"
| "getRedexCount_traverse (Application func arg i fs sid) count =
     (let count1 = (if isRedex (Application func arg i fs sid) then count + 1 else count)
      in getRedexCount_traverse arg (getRedexCount_traverse func count1))"

definition getRedexCount :: "expr \<Rightarrow> int" where
  "getRedexCount e = getRedexCount_traverse e 0"

text \<open>\<open>getRedexes\<close>: the array of \<open>{ id, expr }\<close> objects, as pairs.\<close>

fun getRedexes_traverse :: "expr \<Rightarrow> (int option \<times> expr) list \<Rightarrow> (int option \<times> expr) list" where
  "getRedexes_traverse (Variable name fs sid) redexes = redexes"
| "getRedexes_traverse (Abstraction param body fs sid) redexes =
     getRedexes_traverse body redexes"
| "getRedexes_traverse (Application func arg i fs sid) redexes =
     (let redexes1 = (if isRedex (Application func arg i fs sid)
                      then redexes @ [(i, Application func arg i fs sid)] else redexes)
      in getRedexes_traverse arg (getRedexes_traverse func redexes1))"

definition getRedexes :: "expr \<Rightarrow> (int option \<times> expr) list" where
  "getRedexes e = getRedexes_traverse e []"

fun isAbstraction :: "expr \<Rightarrow> bool" where
  "isAbstraction (Abstraction param body fs sid) = True"
| "isAbstraction e = False"

text \<open>\<open>toPlainString\<close>: 955 is the lambda sign, 46 the dot, 40 and 41 the parentheses.\<close>

fun toPlainString :: "expr \<Rightarrow> jsstring" where
  "toPlainString (Variable name fs sid) = name"
| "toPlainString (Abstraction param body fs sid) = [955] @ param @ [46] @ toPlainString body"
| "toPlainString (Application func arg i fs sid) =
     (let funcNeedsParens = isAbstraction func;
          argNeedsParens = isAbstraction arg;
          funcStr = (if funcNeedsParens then [40] @ toPlainString func @ [41]
                     else toPlainString func);
          argStr = (if argNeedsParens then [40] @ toPlainString arg @ [41]
                    else toPlainString arg)
      in [40] @ funcStr @ [32] @ argStr @ [41])"

section \<open>Linking logic\<close>

text \<open>
  \<open>getSubstitutions\<close> fills a \<open>Map\<close> from source ids to arrays of nodes. The first part of
  the inner \<open>traverse\<close>, which records a node and sets \<open>inSubstitution\<close>, is
  \<open>noteSubstitution\<close>; it returns the map and the flag.
\<close>

type_synonym substitutions = "int option \<rightharpoonup> expr list"

definition noteSubstitution :: "expr \<Rightarrow> bool \<Rightarrow> substitutions \<Rightarrow> substitutions \<times> bool" where
  "noteSubstitution e inSubstitution subs =
     (if fromSubstitution e \<and> \<not> inSubstitution then
        (let srcId = sourceId e;
             subs1 = (if subs srcId = None then subs(srcId \<mapsto> []) else subs)
         in (case subs1 srcId of
               Some nodes \<Rightarrow> (subs1(srcId \<mapsto> nodes @ [e]), True)
             | None \<Rightarrow> (subs1, True)))
      else (subs, inSubstitution))"

fun getSubstitutions_traverse :: "expr \<Rightarrow> bool \<Rightarrow> substitutions \<Rightarrow> substitutions" where
  "getSubstitutions_traverse (Variable name fs sid) inSubstitution subs =
     fst (noteSubstitution (Variable name fs sid) inSubstitution subs)"
| "getSubstitutions_traverse (Abstraction param body fs sid) inSubstitution subs =
     (let (subs1, inSub1) = noteSubstitution (Abstraction param body fs sid) inSubstitution subs
      in getSubstitutions_traverse body inSub1 subs1)"
| "getSubstitutions_traverse (Application func arg i fs sid) inSubstitution subs =
     (let (subs1, inSub1) = noteSubstitution (Application func arg i fs sid) inSubstitution subs
      in getSubstitutions_traverse arg inSub1 (getSubstitutions_traverse func inSub1 subs1))"

definition getSubstitutions :: "expr \<Rightarrow> substitutions" where
  "getSubstitutions e = getSubstitutions_traverse e False Map.empty"

section \<open>Notions used in the statements\<close>

text \<open>
  A tree without its provenance fields: what is left of an expression when
  \<open>fromSubstitution\<close> and \<open>sourceId\<close> are ignored.
\<close>

datatype plain =
    PVariable jsstring
  | PAbstraction jsstring plain
  | PApplication plain plain "int option"

fun withoutMarks :: "expr \<Rightarrow> plain" where
  "withoutMarks (Variable name fs sid) = PVariable name"
| "withoutMarks (Abstraction param body fs sid) = PAbstraction param (withoutMarks body)"
| "withoutMarks (Application func arg i fs sid) =
     PApplication (withoutMarks func) (withoutMarks arg) i"

text \<open>Every node has \<open>fromSubstitution = false\<close> and \<open>sourceId = null\<close>.\<close>

fun unmarked :: "expr \<Rightarrow> bool" where
  "unmarked (Variable name fs sid) \<longleftrightarrow> \<not> fs \<and> sid = None"
| "unmarked (Abstraction param body fs sid) \<longleftrightarrow> \<not> fs \<and> sid = None \<and> unmarked body"
| "unmarked (Application func arg i fs sid) \<longleftrightarrow>
     \<not> fs \<and> sid = None \<and> unmarked func \<and> unmarked arg"

text \<open>The numbered redex \<open>(\<lambda>x.x) y\<close>, with id 1.\<close>

definition identityOnY :: expr where
  "identityOnY =
     Application (Abstraction (js ''x'') (Variable (js ''x'') False None) False None)
       (Variable (js ''y'') False None) (Some 1) False None"

text \<open>
  The tree with the id of every application set to \<open>null\<close>: two trees agree on it when
  they have the same shape, names and provenance fields.
\<close>

fun withoutIds :: "expr \<Rightarrow> expr" where
  "withoutIds (Variable name fs sid) = Variable name fs sid"
| "withoutIds (Abstraction param body fs sid) = Abstraction param (withoutIds body) fs sid"
| "withoutIds (Application func arg i fs sid) =
     Application (withoutIds func) (withoutIds arg) None fs sid"

text \<open>An application carries an id if and only if it is a redex.\<close>

fun idsOnRedexes :: "expr \<Rightarrow> bool" where
  "idsOnRedexes (Variable name fs sid) \<longleftrightarrow> True"
| "idsOnRedexes (Abstraction param body fs sid) \<longleftrightarrow> idsOnRedexes body"
| "idsOnRedexes (Application func arg i fs sid) \<longleftrightarrow>
     (i \<noteq> None) = isRedex (Application func arg i fs sid)
     \<and> idsOnRedexes func \<and> idsOnRedexes arg"

text \<open>The tree of the text \<open>(\x.x x) arg\<close>, as the parser builds it.\<close>

definition duplicationRedex :: expr where
  "duplicationRedex =
     Application
       (Abstraction (js ''x'')
          (Application (Variable (js ''x'') False None) (Variable (js ''x'') False None)
             None False None)
          False None)
       (Variable (js ''arg'') False None) None False None"

text \<open>
  A tree without provenance and without numbering: every node has
  \<open>fromSubstitution = false\<close> and \<open>sourceId = null\<close>, every application has \<open>id = null\<close>.
\<close>

fun pristine :: "expr \<Rightarrow> bool" where
  "pristine (Variable name fs sid) \<longleftrightarrow> \<not> fs \<and> sid = None"
| "pristine (Abstraction param body fs sid) \<longleftrightarrow> \<not> fs \<and> sid = None \<and> pristine body"
| "pristine (Application func arg i fs sid) \<longleftrightarrow>
     \<not> fs \<and> sid = None \<and> i = None \<and> pristine func \<and> pristine arg"

text \<open>
  Nodes are told apart by their position: the path from the root, one step for each
  field followed. \<open>positions\<close> lists the positions of a tree in pre-order (a node, then
  its \<open>body\<close>, or its \<open>func\<close> and then its \<open>arg\<close>).
\<close>

datatype step = ToBody | ToFunc | ToArg

fun nodeAt :: "expr \<Rightarrow> step list \<Rightarrow> expr option" where
  "nodeAt e [] = Some e"
| "nodeAt (Abstraction param body fs sid) (ToBody # path) = nodeAt body path"
| "nodeAt (Application func arg i fs sid) (ToFunc # path) = nodeAt func path"
| "nodeAt (Application func arg i fs sid) (ToArg # path) = nodeAt arg path"
| "nodeAt e (s # path) = None"

fun positions :: "expr \<Rightarrow> step list list" where
  "positions (Variable name fs sid) = [[]]"
| "positions (Abstraction param body fs sid) = [] # map ((#) ToBody) (positions body)"
| "positions (Application func arg i fs sid) =
     [] # map ((#) ToFunc) (positions func) @ map ((#) ToArg) (positions arg)"

text \<open>
  The position lies inside a substituted subtree that starts above it: some node on the
  path from the root to its parent has \<open>fromSubstitution = true\<close>. Source ids play no part.
\<close>

fun belowSubstitution :: "expr \<Rightarrow> step list \<Rightarrow> bool" where
  "belowSubstitution e [] \<longleftrightarrow> False"
| "belowSubstitution e (s # path) \<longleftrightarrow>
     fromSubstitution e \<or>
     (case nodeAt e [s] of Some child \<Rightarrow> belowSubstitution child path | None \<Rightarrow> False)"

text \<open>
  The node at a position, when it is an outermost marked node with the given source id;
  and all of these nodes of a tree, in pre-order.
\<close>

definition reportedAt :: "expr \<Rightarrow> int option \<Rightarrow> step list \<Rightarrow> expr option" where
  "reportedAt e srcId path =
     (case nodeAt e path of
        Some node \<Rightarrow>
          if fromSubstitution node \<and> \<not> belowSubstitution e path \<and> sourceId node = srcId
          then Some node else None
      | None \<Rightarrow> None)"

definition reportedUnder :: "expr \<Rightarrow> int option \<Rightarrow> expr list" where
  "reportedUnder e srcId = List.map_filter (reportedAt e srcId) (positions e)"

text \<open>
  For the proof: appending a node to the array of its source id, the outermost marked
  nodes met by a traversal that starts with a given flag, and \<open>reportedAt\<close> for such a start.
\<close>

definition push :: "substitutions \<Rightarrow> expr \<Rightarrow> substitutions" where
  "push subs node =
     subs(sourceId node \<mapsto> (case subs (sourceId node) of None \<Rightarrow> [] | Some nodes \<Rightarrow> nodes) @ [node])"

fun outermost :: "bool \<Rightarrow> expr \<Rightarrow> expr list" where
  "outermost inSub (Variable name fs sid) = (if fs \<and> \<not> inSub then [Variable name fs sid] else [])"
| "outermost inSub (Abstraction param body fs sid) =
     (if fs \<and> \<not> inSub then [Abstraction param body fs sid] else [])
     @ outermost (inSub \<or> fs) body"
| "outermost inSub (Application func arg i fs sid) =
     (if fs \<and> \<not> inSub then [Application func arg i fs sid] else [])
     @ outermost (inSub \<or> fs) func @ outermost (inSub \<or> fs) arg"

definition reportedFrom :: "bool \<Rightarrow> expr \<Rightarrow> int option \<Rightarrow> step list \<Rightarrow> expr option" where
  "reportedFrom inSub e srcId path =
     (case nodeAt e path of
        Some node \<Rightarrow>
          if fromSubstitution node \<and> \<not> (inSub \<or> belowSubstitution e path)
             \<and> sourceId node = srcId
          then Some node else None
      | None \<Rightarrow> None)"

text \<open>
  A tree with a marked variable (source id 2) inside a marked abstraction (source id 1),
  beside a marked variable (source id 2).
\<close>

definition nestedMarks :: expr where
  "nestedMarks =
     Application
       (Abstraction (js ''a'') (Variable (js ''b'') True (Some 2)) True (Some 1))
       (Variable (js ''c'') True (Some 2)) None False None"

text \<open>
  A variable name of the grammar, \<open>[a-zA-Z][a-zA-Z0-9_']*\<close>, and a tree whose names are
  all of this form.
\<close>

fun validName :: "jsstring \<Rightarrow> bool" where
  "validName [] \<longleftrightarrow> False"
| "validName (c # cs) \<longleftrightarrow> isLetterUnit c \<and> list_all isWordUnit cs"

fun wellFormed :: "expr \<Rightarrow> bool" where
  "wellFormed (Variable name fs sid) \<longleftrightarrow> validName name"
| "wellFormed (Abstraction param body fs sid) \<longleftrightarrow> validName param \<and> wellFormed body"
| "wellFormed (Application func arg i fs sid) \<longleftrightarrow> wellFormed func \<and> wellFormed arg"

text \<open>
  The structure of a tree when the provenance fields and the ids are ignored, and the
  tree with these fields at the constructors' defaults.
\<close>

datatype lterm = LVar jsstring | LAbs jsstring lterm | LApp lterm lterm

fun termOf :: "expr \<Rightarrow> lterm" where
  "termOf (Variable name fs sid) = LVar name"
| "termOf (Abstraction param body fs sid) = LAbs param (termOf body)"
| "termOf (Application func arg i fs sid) = LApp (termOf func) (termOf arg)"

fun bare :: "expr \<Rightarrow> expr" where
  "bare (Variable name fs sid) = Variable name False None"
| "bare (Abstraction param body fs sid) = Abstraction param (bare body) False None"
| "bare (Application func arg i fs sid) = Application (bare func) (bare arg) None False None"

text \<open>The text of a tree as \<open>toPlainString\<close> writes it inside an application.\<close>

definition atomString :: "expr \<Rightarrow> jsstring" where
  "atomString e = (if isAbstraction e then [40] @ toPlainString e @ [41] else toPlainString e)"

text \<open>
  The binding structure of a tree, with the names of the bound variables forgotten: an
  occurrence of a variable is \<open>Bound k\<close> when it is bound by the \<open>k\<close>-th enclosing abstraction
  (counted from the innermost, the nearest one with that parameter), and \<open>Free name\<close> when
  no enclosing abstraction binds it. Two trees have the same image if and only if they
  differ in the names of bound variables and in provenance only. \<open>binders\<close> are the parameters
  of the abstractions around the tree, innermost first.
\<close>

datatype nameless = Free jsstring | Bound nat | NLam nameless | NApp nameless nameless

fun indexOf :: "jsstring list \<Rightarrow> jsstring \<Rightarrow> nat option" where
  "indexOf [] x = None"
| "indexOf (y # ys) x = (if x = y then Some 0 else map_option Suc (indexOf ys x))"

fun namelessOf :: "jsstring list \<Rightarrow> expr \<Rightarrow> nameless" where
  "namelessOf binders (Variable name fs sid) =
     (case indexOf binders name of None \<Rightarrow> Free name | Some k \<Rightarrow> Bound k)"
| "namelessOf binders (Abstraction param body fs sid) = NLam (namelessOf (param # binders) body)"
| "namelessOf binders (Application func arg i fs sid) =
     NApp (namelessOf binders func) (namelessOf binders arg)"

text \<open>
  Substitution on the binding structure: each free occurrence of \<open>x\<close> is replaced by \<open>u\<close>,
  whose free variables stay free wherever it is put.
\<close>

fun replaceFree :: "jsstring \<Rightarrow> nameless \<Rightarrow> nameless \<Rightarrow> nameless" where
  "replaceFree x u (Free y) = (if y = x then u else Free y)"
| "replaceFree x u (Bound k) = Bound k"
| "replaceFree x u (NLam t) = NLam (replaceFree x u t)"
| "replaceFree x u (NApp t1 t2) = NApp (replaceFree x u t1) (replaceFree x u t2)"

text \<open>
  The redex \<open>(\<lambda>x.(\<lambda>x'.x x')) x'\<close> with id 1: its argument is free and has the name of the
  inner parameter.
\<close>

definition captureExample :: expr where
  "captureExample =
     Application
       (Abstraction (js ''x'')
          (Abstraction (js ''x'' @ [39])
             (Application (Variable (js ''x'') False None) (Variable (js ''x'' @ [39]) False None)
                None False None)
             False None)
          False None)
       (Variable (js ''x'' @ [39]) False None) (Some 1) False None"

section \<open>Properties\<close>

subsection \<open>Clearing the substitution marks\<close>

text \<open>
  C8. \<open>clearSubstitutionMarks\<close> returns a tree in which every node has
  \<open>fromSubstitution = false\<close> and \<open>sourceId = null\<close>, and which is the input in everything
  else: the shape, the variable names, the parameters and the id of every application.
\<close>

theorem clearSubstitutionMarks_frame:
  "unmarked (clearSubstitutionMarks e) \<and>
   withoutMarks (clearSubstitutionMarks e) = withoutMarks e"
  by (induction e) simp_all

subsection \<open>Reduction at an id that is not a redex\<close>

lemma getRedexes_traverse_acc:
  "getRedexes_traverse e redexes = redexes @ getRedexes_traverse e []"
proof (induction e arbitrary: redexes)
  case (Variable name fs sid)
  show ?case by simp
next
  case (Abstraction param body fs sid)
  show ?case using Abstraction [of redexes] by simp
next
  case (Application func arg i fs sid)
  let ?e = "Application func arg i fs sid"
  show ?case
  proof (cases "isRedex ?e")
    case True
    have "getRedexes_traverse ?e redexes
            = (redexes @ [(i, ?e)]) @ getRedexes_traverse func [] @ getRedexes_traverse arg []"
      using True Application.IH(1) [of "redexes @ [(i, ?e)]"]
        Application.IH(2) [of "getRedexes_traverse func (redexes @ [(i, ?e)])"]
      by (simp add: Let_def)
    moreover have "getRedexes_traverse ?e []
            = [(i, ?e)] @ getRedexes_traverse func [] @ getRedexes_traverse arg []"
      using True Application.IH(1) [of "[(i, ?e)]"]
        Application.IH(2) [of "getRedexes_traverse func [(i, ?e)]"]
      by (simp add: Let_def)
    ultimately show ?thesis by simp
  next
    case False
    have "getRedexes_traverse ?e redexes
            = redexes @ getRedexes_traverse func [] @ getRedexes_traverse arg []"
      using False Application.IH(1) [of redexes]
        Application.IH(2) [of "getRedexes_traverse func redexes"]
      by (simp add: Let_def)
    moreover have "getRedexes_traverse ?e []
            = getRedexes_traverse func [] @ getRedexes_traverse arg []"
      using False Application.IH(2) [of "getRedexes_traverse func []"]
      by (simp add: Let_def)
    ultimately show ?thesis by simp
  qed
qed

lemma getRedexes_Abstraction:
  "getRedexes (Abstraction param body fs sid) = getRedexes body"
  by (simp add: getRedexes_def)

lemma getRedexes_Application:
  "getRedexes (Application func arg i fs sid) =
     (if isRedex (Application func arg i fs sid)
      then [(i, Application func arg i fs sid)] else [])
     @ getRedexes func @ getRedexes arg"
  unfolding getRedexes_def
  using getRedexes_traverse_acc [of func "[(i, Application func arg i fs sid)]"]
        getRedexes_traverse_acc [of arg "getRedexes_traverse func [(i, Application func arg i fs sid)]"]
        getRedexes_traverse_acc [of arg "getRedexes_traverse func []"]
  by (cases "isRedex (Application func arg i fs sid)") (simp_all add: Let_def)

text \<open>
  C4. When no application of the tree has the id \<open>targetId\<close> and is a redex, that is, when
  \<open>targetId\<close> is not the id of any entry of \<open>getRedexes\<close>, \<open>reduceAt\<close> returns the tree as it
  was, and raises nothing.
\<close>

theorem reduceAt_noop:
  "targetId \<notin> fst ` set (getRedexes e) \<Longrightarrow> reduceAt e targetId = e"
proof (induction e)
  case (Variable name fs sid)
  show ?case by simp
next
  case (Abstraction param body fs sid)
  then show ?case by (simp add: getRedexes_Abstraction)
next
  case (Application func arg i fs sid)
  then have ne: "\<not> (i = targetId \<and> isRedex (Application func arg i fs sid))"
    and f: "targetId \<notin> fst ` set (getRedexes func)"
    and a: "targetId \<notin> fst ` set (getRedexes arg)"
    by (auto simp: getRedexes_Application split: if_splits)
  have "reduceAt (Application func arg i fs sid) targetId
          = Application (reduceAt func targetId) (reduceAt arg targetId) i fs sid"
    using ne by (simp only: reduceAt.simps if_False)
  then show ?case
    using Application.IH(1) [OF f] Application.IH(2) [OF a] by simp
qed

theorem reduceAt_noop_witness:
  "Some 2 \<notin> fst ` set (getRedexes identityOnY) \<and> reduceAt identityOnY (Some 2) = identityOnY
   \<and> None \<notin> fst ` set (getRedexes identityOnY) \<and> reduceAt identityOnY None = identityOnY"
proof -
  have a: "Some 2 \<notin> fst ` set (getRedexes identityOnY)"
    by (simp add: identityOnY_def getRedexes_def)
  have b: "None \<notin> fst ` set (getRedexes identityOnY)"
    by (simp add: identityOnY_def getRedexes_def)
  show ?thesis
    using a b reduceAt_noop [OF a] reduceAt_noop [OF b] by simp
qed

subsection \<open>Fresh names\<close>

text \<open>
  C9. For every base string and every (finite) avoid set, \<open>freshName\<close> returns: it is a total
  function, by the termination proof of its definition, and as a function it gives equal
  results on equal inputs. The result is the base followed by \<open>k\<close> apostrophes, it is not in
  the avoid set, and \<open>k\<close> is the least such number: the base with fewer apostrophes is in
  the avoid set.
\<close>

theorem freshName_minimal:
  "\<exists>k. freshName base avoid = base @ replicate k 39
       \<and> base @ replicate k 39 |\<notin>| avoid
       \<and> (\<forall>j<k. base @ replicate j 39 |\<in>| avoid)"
proof (induction base avoid rule: freshName.induct)
  case (1 fresh avoid)
  show ?case
  proof (cases "fresh |\<in>| avoid")
    case False
    then have "freshName fresh avoid = fresh @ replicate 0 39
        \<and> fresh @ replicate 0 39 |\<notin>| avoid
        \<and> (\<forall>j<0. fresh @ replicate j 39 |\<in>| avoid)"
      by (simp add: freshName.simps)
    then show ?thesis by blast
  next
    case True
    from "1.IH" [OF True] obtain k where
      eq: "freshName (fresh @ [39]) avoid = (fresh @ [39]) @ replicate k 39"
      and out: "(fresh @ [39]) @ replicate k 39 |\<notin>| avoid"
      and below: "\<forall>j<k. (fresh @ [39]) @ replicate j 39 |\<in>| avoid"
      by blast
    have "freshName fresh avoid = fresh @ replicate (Suc k) 39"
      using True eq by (subst freshName.simps) simp
    moreover have "fresh @ replicate (Suc k) 39 |\<notin>| avoid"
      using out by simp
    moreover have "\<forall>j<Suc k. fresh @ replicate j 39 |\<in>| avoid"
    proof (intro allI impI)
      fix j assume "j < Suc k"
      then show "fresh @ replicate j 39 |\<in>| avoid"
        using True below by (cases j) auto
    qed
    ultimately show ?thesis by blast
  qed
qed

theorem freshName_minimal_witness:
  "freshName (js ''x'') {|js ''x'', js ''x'' @ [39]|} = js ''x'' @ [39, 39]"
proof -
  let ?A = "{|js ''x'', js ''x'' @ [39]|}"
  obtain k where eq: "freshName (js ''x'') ?A = js ''x'' @ replicate k 39"
    and out: "js ''x'' @ replicate k 39 |\<notin>| ?A"
    and below: "\<forall>j<k. js ''x'' @ replicate j 39 |\<in>| ?A"
    using freshName_minimal [of "js ''x''" ?A] by blast
  have "k \<noteq> 0" using out by (auto simp: js_def)
  moreover have "k \<noteq> 1" using out by (auto simp: js_def)
  moreover have "\<not> 2 < k"
  proof
    assume "2 < k"
    with below have "js ''x'' @ replicate 2 39 |\<in>| ?A" by blast
    then show False by (simp add: js_def numeral_2_eq_2)
  qed
  ultimately have "k = 2" by arith
  with eq show ?thesis by (simp add: numeral_2_eq_2)
qed

subsection \<open>Numbering the redexes\<close>

lemma isRedex_Application: "isRedex (Application func arg i fs sid) = isAbstraction func"
  by (cases func) simp_all

lemma getRedexCount_traverse_acc:
  "getRedexCount_traverse e count = count + getRedexCount_traverse e 0"
proof (induction e arbitrary: count)
  case (Variable name fs sid)
  show ?case by simp
next
  case (Abstraction param body fs sid)
  show ?case using Abstraction [of count] by simp
next
  case (Application func arg i fs sid)
  let ?e = "Application func arg i fs sid"
  define d :: int where "d = (if isRedex ?e then 1 else 0)"
  have "getRedexCount_traverse ?e count
          = getRedexCount_traverse arg (getRedexCount_traverse func (count + d))"
    by (simp add: Let_def d_def)
  also have "\<dots> = getRedexCount_traverse func (count + d) + getRedexCount_traverse arg 0"
    by (rule Application.IH(2))
  also have "getRedexCount_traverse func (count + d)
          = count + d + getRedexCount_traverse func 0"
    by (rule Application.IH(1))
  finally have l: "getRedexCount_traverse ?e count
          = count + (d + getRedexCount_traverse func 0 + getRedexCount_traverse arg 0)"
    by simp
  have "getRedexCount_traverse ?e 0
          = getRedexCount_traverse arg (getRedexCount_traverse func d)"
    by (simp add: Let_def d_def)
  also have "\<dots> = getRedexCount_traverse func d + getRedexCount_traverse arg 0"
    by (rule Application.IH(2))
  also have "getRedexCount_traverse func d = d + getRedexCount_traverse func 0"
    by (rule Application.IH(1))
  finally show ?case using l by simp
qed

lemma getRedexCount_Abstraction:
  "getRedexCount (Abstraction param body fs sid) = getRedexCount body"
  by (simp add: getRedexCount_def)

lemma getRedexCount_Application:
  "getRedexCount (Application func arg i fs sid) =
     (if isAbstraction func then 1 else 0) + getRedexCount func + getRedexCount arg"
proof -
  let ?d = "if isAbstraction func then 1 else 0 :: int"
  have "getRedexCount (Application func arg i fs sid)
          = getRedexCount_traverse arg (getRedexCount_traverse func ?d)"
    by (simp add: getRedexCount_def Let_def isRedex_Application)
  also have "\<dots> = getRedexCount_traverse func ?d + getRedexCount_traverse arg 0"
    by (rule getRedexCount_traverse_acc)
  also have "getRedexCount_traverse func ?d = ?d + getRedexCount_traverse func 0"
    by (rule getRedexCount_traverse_acc)
  finally show ?thesis by (simp add: getRedexCount_def)
qed

lemma getRedexCount_nonneg: "0 \<le> getRedexCount e"
  by (induction e)
     (simp_all add: getRedexCount_Abstraction getRedexCount_Application, simp add: getRedexCount_def)

lemma isAbstraction_numberRedexes:
  "isAbstraction (fst (numberRedexes e counter)) = isAbstraction e"
  by (cases e) (simp_all add: Let_def split_beta)

lemma numberRedexes_counter:
  "snd (numberRedexes e counter) = counter + getRedexCount e"
proof (induction e arbitrary: counter)
  case (Variable name fs sid)
  show ?case by (simp add: getRedexCount_def)
next
  case (Abstraction param body fs sid)
  then show ?case by (simp add: split_beta getRedexCount_Abstraction)
next
  case (Application func arg i fs sid)
  then show ?case
    by (simp add: split_beta Let_def getRedexCount_Application isRedex_Application)
qed

lemma numberRedexes_shape:
  "withoutIds (fst (numberRedexes e counter)) = withoutIds e"
  by (induction e arbitrary: counter) (simp_all add: split_beta Let_def)

lemma numberRedexes_idsOnRedexes:
  "idsOnRedexes (fst (numberRedexes e counter))"
  by (induction e arbitrary: counter)
     (simp_all add: split_beta Let_def isRedex_Application isAbstraction_numberRedexes)


lemma upto_append_adjacent:
  fixes a b c :: int
  assumes "a \<le> b" "b \<le> c"
  shows "[a..b - 1] @ [b..c - 1] = [a..c - 1]"
proof (cases "b = c")
  case True
  then show ?thesis by simp
next
  case False
  with assms have "b \<le> c - 1" by simp
  with assms(1) show ?thesis by (simp add: upto_split1 [of a b "c - 1"])
qed

lemma numberRedexes_ids:
  "map fst (getRedexes (fst (numberRedexes e counter)))
     = map Some [counter..counter + getRedexCount e - 1]"
proof (induction e arbitrary: counter)
  case (Variable name fs sid)
  show ?case by (simp add: getRedexes_def getRedexCount_def)
next
  case (Abstraction param body fs sid)
  then show ?case
    by (simp add: split_beta getRedexes_Abstraction getRedexCount_Abstraction)
next
  case (Application func arg i fs sid)
  define d :: int where "d = (if isAbstraction func then 1 else 0)"
  define c0 where "c0 = counter + d"
  define c1 where "c1 = c0 + getRedexCount func"
  define c2 where "c2 = c1 + getRedexCount arg"
  define ident where "ident = (if isAbstraction func then Some counter else None)"
  define func' where "func' = fst (numberRedexes func c0)"
  define arg' where "arg' = fst (numberRedexes arg c1)"
  have res: "fst (numberRedexes (Application func arg i fs sid) counter)
               = Application func' arg' ident fs sid"
    by (simp add: split_beta Let_def isRedex_Application numberRedexes_counter
          func'_def arg'_def ident_def c0_def c1_def d_def)
  have redex: "isRedex (Application func' arg' ident fs sid) = isAbstraction func"
    by (simp add: isRedex_Application func'_def isAbstraction_numberRedexes)
  have own: "map fst (if isAbstraction func then [(ident, Application func' arg' ident fs sid)]
                      else []) = map Some [counter..c0 - 1]"
    by (simp add: ident_def c0_def d_def)
  have f: "map fst (getRedexes func') = map Some [c0..c1 - 1]"
    unfolding func'_def c1_def by (rule Application.IH(1))
  have a: "map fst (getRedexes arg') = map Some [c1..c2 - 1]"
    unfolding arg'_def c2_def by (rule Application.IH(2))
  have le: "counter \<le> c0" "c0 \<le> c1" "c1 \<le> c2"
    using getRedexCount_nonneg [of func] getRedexCount_nonneg [of arg]
    by (simp_all add: c0_def c1_def c2_def d_def)
  have total: "counter + getRedexCount (Application func arg i fs sid) = c2"
    by (simp add: getRedexCount_Application c0_def c1_def c2_def d_def)
  have "map fst (getRedexes (Application func' arg' ident fs sid))
          = map Some ([counter..c0 - 1] @ [c0..c1 - 1] @ [c1..c2 - 1])"
    using own f a by (simp add: getRedexes_Application redex)
  also have "[counter..c0 - 1] @ [c0..c1 - 1] @ [c1..c2 - 1] = [counter..c2 - 1]"
    using le upto_append_adjacent [of c0 c1 c2] upto_append_adjacent [of counter c0 c2]
    by simp
  finally show ?case unfolding res total .
qed

text \<open>
  C3. After \<open>numberRedexes(expr)\<close> the tree has the shape, names and provenance fields of
  \<open>expr\<close>; an application carries an id if and only if it is a redex; and the ids of the
  redexes, listed by \<open>getRedexes\<close> in its pre-order (a redex before its subtrees, \<open>func\<close>
  before \<open>arg\<close>), are \<open>1, 2, \<dots>, getRedexCount(expr)\<close>: each number once, in the order
  of the traversal.
\<close>

theorem numberRedexes_numbering:
  "withoutIds (numberRedexesFrom1 e) = withoutIds e
   \<and> idsOnRedexes (numberRedexesFrom1 e)
   \<and> map fst (getRedexes (numberRedexesFrom1 e)) = map Some [1..getRedexCount e]"
  using numberRedexes_ids [of e 1]
  by (simp add: numberRedexesFrom1_def numberRedexes_shape numberRedexes_idsOnRedexes)

subsection \<open>The parser on concrete texts\<close>

text \<open>The equations that evaluate the parser on a given text.\<close>

lemmas parser_eval = parse_def parserParse_def trim_def js_def parseExpr.simps parseAtom.simps
  parseExprLoop.simps skipWhitespace.simps scanVariableName.simps parseVariableName_def
  hasMore_def currentChar_def isWhitespaceUnit_def isLetterUnit_def isWordUnit_def
  isAtomStart_def parserError_def slice_def decimal.simps Let_def

text \<open>
  C7, as stated, fails: on the text \<open>)\<close> the parser throws an object of the class \<open>Error\<close>,
  not a \<open>SyntaxError\<close>; the object holds one text, in which the offset stands after
  \<open>at position\<close>; and the message names the character that was met,
  \<open>Unexpected character ')'\<close>, not a token that was expected.
\<close>

theorem parse_error_class_counterexample:
  "parse (js '')'') =
     Inl \<lparr>err_class = Error,
          err_message = js ''Unexpected character '' @ [39, 41, 39] @ js '' at position 0''
            @ [10] @ js ''  )'' @ [10] @ js ''  ^''\<rparr>
   \<and> Error \<noteq> SyntaxError"
  by (simp add: parser_eval)

text \<open>
  C7, amended: on each of the texts \<open>(\<close>, \<open>)\<close>, \<open>\<lambda>x\<close>, \<open>\<lambda>.x\<close>, the empty text and three
  blanks, \<open>parse\<close> throws and returns no expression. The thrown object is a plain \<open>Error\<close>
  whose text is a message, \<open>at position\<close> and the offset, then the context and the pointer
  line. The message names what was expected (\<open>Expected variable name\<close>,
  \<open>Expected '.' after lambda parameter\<close>) except on \<open>)\<close>, where it names the character met.
  At the end of the text the current character is \<open>undefined\<close>, which the test for a
  variable start accepts, so that the message there is about the variable name.
\<close>

theorem parse_error_boundary:
  "parse (js ''('') =
     Inl \<lparr>err_class = Error,
          err_message = js ''Expected variable name at position 1''
            @ [10] @ js ''  ('' @ [10] @ js ''   ^''\<rparr>
   \<and> parse (js '')'') =
     Inl \<lparr>err_class = Error,
          err_message = js ''Unexpected character '' @ [39, 41, 39] @ js '' at position 0''
            @ [10] @ js ''  )'' @ [10] @ js ''  ^''\<rparr>
   \<and> parse ([955] @ js ''x'') =
     Inl \<lparr>err_class = Error,
          err_message = js ''Expected '' @ [39, 46, 39]
            @ js '' after lambda parameter at position 2''
            @ [10] @ js ''  '' @ [955] @ js ''x'' @ [10] @ js ''    ^''\<rparr>
   \<and> parse ([955] @ js ''.x'') =
     Inl \<lparr>err_class = Error,
          err_message = js ''Expected variable name at position 1''
            @ [10] @ js ''  '' @ [955] @ js ''.x'' @ [10] @ js ''   ^''\<rparr>
   \<and> parse (js '''') =
     Inl \<lparr>err_class = Error,
          err_message = js ''Expected variable name at position 0''
            @ [10] @ js ''  '' @ [10] @ js ''  ^''\<rparr>
   \<and> parse (js ''   '') =
     Inl \<lparr>err_class = Error,
          err_message = js ''Expected variable name at position 0''
            @ [10] @ js ''  '' @ [10] @ js ''  ^''\<rparr>"
proof (intro conjI)
  show "parse (js ''('') =
     Inl \<lparr>err_class = Error,
          err_message = js ''Expected variable name at position 1''
            @ [10] @ js ''  ('' @ [10] @ js ''   ^''\<rparr>"
    by (simp add: parser_eval)
  show "parse (js '')'') =
     Inl \<lparr>err_class = Error,
          err_message = js ''Unexpected character '' @ [39, 41, 39] @ js '' at position 0''
            @ [10] @ js ''  )'' @ [10] @ js ''  ^''\<rparr>"
    by (simp add: parser_eval)
  show "parse ([955] @ js ''x'') =
     Inl \<lparr>err_class = Error,
          err_message = js ''Expected '' @ [39, 46, 39]
            @ js '' after lambda parameter at position 2''
            @ [10] @ js ''  '' @ [955] @ js ''x'' @ [10] @ js ''    ^''\<rparr>"
    by (simp add: parser_eval)
  show "parse ([955] @ js ''.x'') =
     Inl \<lparr>err_class = Error,
          err_message = js ''Expected variable name at position 1''
            @ [10] @ js ''  '' @ [955] @ js ''.x'' @ [10] @ js ''   ^''\<rparr>"
    by (simp add: parser_eval)
  show "parse (js '''') =
     Inl \<lparr>err_class = Error,
          err_message = js ''Expected variable name at position 0''
            @ [10] @ js ''  '' @ [10] @ js ''  ^''\<rparr>"
    by (simp add: parser_eval)
  show "parse (js ''   '') =
     Inl \<lparr>err_class = Error,
          err_message = js ''Expected variable name at position 0''
            @ [10] @ js ''  '' @ [10] @ js ''  ^''\<rparr>"
    by (simp add: parser_eval)
qed

lemma parse_duplicationRedex:
  "parse (js ''('' @ [92] @ js ''x.x x) arg'') = Inr duplicationRedex"
  by (simp add: parser_eval duplicationRedex_def)

subsection \<open>Duplication of the argument\<close>

lemmas reduce_eval = numberRedexesFrom1_def getSubstitutions_def noteSubstitution_def
  substitute.simps freshName.simps js_def Let_def

text \<open>
  C6, as stated, fails: the parser gives no ids, so \<open>reduceAt(parse("(\\x.x x) arg"), 1)\<close>
  finds no application with the id 1 and returns the parsed tree, which is not
  \<open>(arg arg)\<close> and holds no substituted node.
\<close>

theorem reduceAt_unnumbered_counterexample:
  "parse (js ''('' @ [92] @ js ''x.x x) arg'') = Inr duplicationRedex
   \<and> reduceAt duplicationRedex (Some 1) = duplicationRedex
   \<and> toPlainString (reduceAt duplicationRedex (Some 1))
       = js ''(('' @ [955] @ js ''x.(x x)) arg)''
   \<and> toPlainString (reduceAt duplicationRedex (Some 1)) \<noteq> js ''(arg arg)''
   \<and> getSubstitutions (reduceAt duplicationRedex (Some 1)) = Map.empty"
proof -
  have r: "reduceAt duplicationRedex (Some 1) = duplicationRedex"
    by (simp add: duplicationRedex_def)
  have s: "toPlainString duplicationRedex = js ''(('' @ [955] @ js ''x.(x x)) arg)''"
    by (simp add: duplicationRedex_def js_def)
  have n: "js ''(('' @ [955] @ js ''x.(x x)) arg)'' \<noteq> js ''(arg arg)''"
    by (simp add: js_def)
  have g: "getSubstitutions duplicationRedex = Map.empty"
    by (simp add: duplicationRedex_def reduce_eval)
  show ?thesis using parse_duplicationRedex r s n g by simp
qed

text \<open>
  C6, amended: once the parsed tree is numbered by \<open>numberRedexes\<close>, reducing at the id 1
  yields \<open>(arg arg)\<close>, and \<open>getSubstitutions\<close> reports exactly two nodes, both under the
  one source id 1.
\<close>

theorem duplication_detection:
  "parse (js ''('' @ [92] @ js ''x.x x) arg'') = Inr duplicationRedex
   \<and> reduceAt (numberRedexesFrom1 duplicationRedex) (Some 1)
       = Application (Variable (js ''arg'') True (Some 1)) (Variable (js ''arg'') True (Some 1))
           None False None
   \<and> toPlainString (reduceAt (numberRedexesFrom1 duplicationRedex) (Some 1)) = js ''(arg arg)''
   \<and> getSubstitutions (reduceAt (numberRedexesFrom1 duplicationRedex) (Some 1))
       = [Some 1 \<mapsto> [Variable (js ''arg'') True (Some 1), Variable (js ''arg'') True (Some 1)]]"
proof -
  have r: "reduceAt (numberRedexesFrom1 duplicationRedex) (Some 1)
       = Application (Variable (js ''arg'') True (Some 1)) (Variable (js ''arg'') True (Some 1))
           None False None"
    by (simp add: duplicationRedex_def reduce_eval)
  have s: "toPlainString (Application (Variable (js ''arg'') True (Some 1))
       (Variable (js ''arg'') True (Some 1)) None False None) = js ''(arg arg)''"
    by (simp add: js_def)
  have g: "getSubstitutions (Application (Variable (js ''arg'') True (Some 1))
       (Variable (js ''arg'') True (Some 1)) None False None)
       = [Some 1 \<mapsto> [Variable (js ''arg'') True (Some 1), Variable (js ''arg'') True (Some 1)]]"
    by (simp add: reduce_eval)
  show ?thesis using parse_duplicationRedex r s g by simp
qed

subsection \<open>A freshly parsed tree\<close>

lemma parser_pristine:
  "\<forall>e p'. parseAtom source position = Inr (e, p') \<longrightarrow> pristine e"
  "\<forall>e p'. parseExpr source position = Inr (e, p') \<longrightarrow> pristine e"
  "pristine result \<longrightarrow> (\<forall>e p'. parseExprLoop source result position = Inr (e, p') \<longrightarrow> pristine e)"
proof (induction source position and source position and source result position
    rule: parseAtom_parseExpr_parseExprLoop.induct)
  case (1 source position)
  let ?q = "skipWhitespace source position"
  show ?case
  proof (intro allI impI)
    fix e p' assume res: "parseAtom source position = Inr (e, p')"
    show "pristine e"
    proof (cases "currentChar source ?q = Some 40")
      case True
      from res True obtain p1 where "parseExpr source (Suc ?q) = Inr (e, p1)"
        by (subst (asm) parseAtom.simps)
           (auto simp: Let_def split: sum.splits if_splits)
      with "1.IH"(1) [OF refl refl True] show ?thesis by blast
    next
      case notParen: False
      show ?thesis
      proof (cases "isLambdaStart (currentChar source ?q)")
        case True
        let ?p1 = "skipWhitespace source (Suc ?q)"
        from res notParen True obtain name p2 body where
          pv: "parseVariableName source ?p1 = Inr (name, p2)"
          and dot: "currentChar source (skipWhitespace source p2) = Some 46"
          and pe: "parseExpr source (Suc (skipWhitespace source p2)) = Inr (body, p')"
          and e: "e = Abstraction name body False None"
          by (subst (asm) parseAtom.simps)
             (auto simp: Let_def split: sum.splits if_splits)
        from "1.IH"(2) [OF refl refl notParen True refl pv refl refl] dot pe
        have "pristine body" by simp
        with e show ?thesis by simp
      next
        case False
        with res notParen obtain name where "e = Variable name False None"
          by (subst (asm) parseAtom.simps)
             (auto simp: Let_def split: sum.splits if_splits)
        then show ?thesis by simp
      qed
    qed
  qed
next
  case (2 source position)
  show ?case
  proof (intro allI impI)
    fix e p' assume res: "parseExpr source position = Inr (e, p')"
    let ?q = "skipWhitespace source position"
    from res obtain r p1 where pa: "parseAtom source ?q = Inr (r, p1)"
      and pl: "parseExprLoop source r p1 = Inr (e, p')"
      by (subst (asm) parseExpr.simps) (auto simp: Let_def split: sum.splits)
    from "2.IH"(1) [OF refl] pa have "pristine r" by blast
    with "2.IH"(2) [OF refl pa refl] pl show "pristine e" by blast
  qed
next
  case (3 source result position)
  show ?case
  proof (intro allI impI)
    fix e p'
    assume pr: "pristine result"
      and res: "parseExprLoop source result position = Inr (e, p')"
    let ?q = "skipWhitespace source position"
    let ?c = "hasMore source ?q \<and> currentChar source ?q \<noteq> Some 41
                \<and> isAtomStart (currentChar source ?q)"
    show "pristine e"
    proof (cases ?c)
      case False
      with res have "e = result"
        by (subst (asm) parseExprLoop.simps) (auto simp: Let_def split: sum.splits)
      with pr show ?thesis by simp
    next
      case True
      with res obtain a p1 where pa: "parseAtom source ?q = Inr (a, p1)"
        and pl: "parseExprLoop source (Application result a None False None) p1 = Inr (e, p')"
        by (subst (asm) parseExprLoop.simps) (auto simp: Let_def split: sum.splits)
      have nn: "\<not> \<not> ?c" using True by simp
      from "3.IH"(1) [OF refl refl refl nn] pa have "pristine a" by blast
      with pr have "pristine (Application result a None False None)" by simp
      with "3.IH"(2) [OF refl refl refl nn pa refl] pl show ?thesis by blast
    qed
  qed
qed

text \<open>
  C10. Every tree that \<open>parse\<close> returns carries no provenance and no numbering: on each
  node \<open>fromSubstitution\<close> is false and \<open>sourceId\<close> is \<open>null\<close>, and each application has the
  id \<open>null\<close>.
\<close>

theorem parse_pristine: "parse input = Inr e \<Longrightarrow> pristine e"
proof -
  assume "parse input = Inr e"
  then obtain p where "parseExpr (trim input) 0 = Inr (e, p)"
    by (auto simp: parse_def parserParse_def Let_def split: sum.splits if_splits)
  with parser_pristine(2) show ?thesis by blast
qed

theorem parse_pristine_witness:
  "parse (js ''('' @ [92] @ js ''x.x x) arg'') = Inr duplicationRedex
   \<and> pristine duplicationRedex"
  using parse_duplicationRedex parse_pristine [OF parse_duplicationRedex] by simp

subsection \<open>The substituted subtrees\<close>

lemma noteSubstitution_push:
  "noteSubstitution e inSub subs =
     (if fromSubstitution e \<and> \<not> inSub then (push subs e, True) else (subs, inSub))"
  by (cases "subs (sourceId e)") (simp_all add: noteSubstitution_def push_def Let_def)

lemma traverse_foldl:
  "getSubstitutions_traverse e inSub subs = foldl push subs (outermost inSub e)"
proof (induction e arbitrary: inSub subs)
  case (Variable name fs sid)
  show ?case by (simp add: noteSubstitution_push)
next
  case (Abstraction param body fs sid)
  show ?case
    by (cases "fs \<and> \<not> inSub") (auto simp: noteSubstitution_push Abstraction)
next
  case (Application func arg i fs sid)
  show ?case
    by (cases "fs \<and> \<not> inSub") (auto simp: noteSubstitution_push Application)
qed

lemma push_lookup:
  "push subs a srcId =
     (if sourceId a = srcId
      then Some ((case subs srcId of None \<Rightarrow> [] | Some old \<Rightarrow> old) @ [a])
      else subs srcId)"
  by (auto simp: push_def)

lemma foldl_push_lookup:
  "foldl push subs nodes srcId =
     (case filter (\<lambda>n. sourceId n = srcId) nodes of
        [] \<Rightarrow> subs srcId
      | n # ns \<Rightarrow> Some ((case subs srcId of None \<Rightarrow> [] | Some old \<Rightarrow> old) @ n # ns))"
proof (induction nodes arbitrary: subs)
  case Nil
  show ?case by simp
next
  case (Cons a nodes)
  have step: "foldl push subs (a # nodes) srcId =
     (case filter (\<lambda>n. sourceId n = srcId) nodes of
        [] \<Rightarrow> push subs a srcId
      | n # ns \<Rightarrow> Some ((case push subs a srcId of None \<Rightarrow> [] | Some old \<Rightarrow> old) @ n # ns))"
    using Cons [of "push subs a"] by simp
  show ?case
    unfolding step by (simp add: push_lookup split: list.splits option.splits)
qed


lemma map_filter_map_comp: "List.map_filter f (map g xs) = List.map_filter (\<lambda>x. f (g x)) xs"
  by (induction xs) (simp_all add: map_filter_simps split: option.splits)

lemma map_filter_append_split:
  "List.map_filter f (xs @ ys) = List.map_filter f xs @ List.map_filter f ys"
  by (induction xs) (simp_all add: map_filter_simps split: option.splits)

lemma reportedFrom_Nil:
  "reportedFrom inSub e srcId [] =
     (if fromSubstitution e \<and> \<not> inSub \<and> sourceId e = srcId then Some e else None)"
  by (simp add: reportedFrom_def)

lemma reportedFrom_body:
  "reportedFrom inSub (Abstraction param body fs sid) srcId (ToBody # path)
     = reportedFrom (inSub \<or> fs) body srcId path"
  by (simp add: reportedFrom_def split: option.splits)

lemma reportedFrom_func:
  "reportedFrom inSub (Application func arg i fs sid) srcId (ToFunc # path)
     = reportedFrom (inSub \<or> fs) func srcId path"
  by (simp add: reportedFrom_def split: option.splits)

lemma reportedFrom_arg:
  "reportedFrom inSub (Application func arg i fs sid) srcId (ToArg # path)
     = reportedFrom (inSub \<or> fs) arg srcId path"
  by (simp add: reportedFrom_def split: option.splits)

lemma outermost_positions:
  "filter (\<lambda>n. sourceId n = srcId) (outermost inSub e)
     = List.map_filter (reportedFrom inSub e srcId) (positions e)"
proof (induction e arbitrary: inSub)
  case (Variable name fs sid)
  show ?case by (simp add: map_filter_simps reportedFrom_Nil)
next
  case (Abstraction param body fs sid)
  show ?case
    by (simp add: map_filter_simps reportedFrom_Nil map_filter_map_comp reportedFrom_body
          Abstraction)
next
  case (Application func arg i fs sid)
  show ?case
    by (simp add: map_filter_simps reportedFrom_Nil map_filter_map_comp map_filter_append_split
          reportedFrom_func reportedFrom_arg Application)
qed

lemma reportedFrom_False: "reportedFrom False e srcId = reportedAt e srcId"
  by (rule ext) (simp add: reportedFrom_def reportedAt_def split: option.splits)

text \<open>
  C5. \<open>getSubstitutions\<close> collects exactly the outermost substituted nodes: under each
  source id the map holds, in the order of the traversal, the nodes with that source id
  whose \<open>fromSubstitution\<close> is true and whose parent is not already inside a substituted
  subtree (no node above them is marked); a source id with no such node is not a key of
  the map. A marked node nested in a marked subtree is not reported again, whatever its
  own source id.
\<close>

theorem getSubstitutions_outermost:
  "getSubstitutions e srcId =
     (if reportedUnder e srcId = [] then None else Some (reportedUnder e srcId))"
proof -
  have "reportedUnder e srcId = filter (\<lambda>n. sourceId n = srcId) (outermost False e)"
    by (simp add: reportedUnder_def outermost_positions reportedFrom_False)
  moreover have "getSubstitutions e srcId = foldl push Map.empty (outermost False e) srcId"
    by (simp add: getSubstitutions_def traverse_foldl)
  ultimately show ?thesis
    by (simp add: foldl_push_lookup split: list.splits)
qed

text \<open>
  On a nested mark: the inner variable with source id 2 is not reported, the outer
  abstraction and the variable beside it are.
\<close>

lemma getSubstitutions_nestedMarks:
  "getSubstitutions nestedMarks (Some 1)
     = Some [Abstraction (js ''a'') (Variable (js ''b'') True (Some 2)) True (Some 1)]
   \<and> getSubstitutions nestedMarks (Some 2) = Some [Variable (js ''c'') True (Some 2)]
   \<and> reportedUnder nestedMarks (Some 2) = [Variable (js ''c'') True (Some 2)]"
  by (simp add: nestedMarks_def getSubstitutions_def noteSubstitution_def Let_def
        reportedUnder_def reportedAt_def map_filter_simps)

subsection \<open>Round trip through the plain text\<close>

lemma termOf_bare: "termOf (bare e) = termOf e"
  by (induction e) simp_all

lemma letter_facts:
  "isLetterUnit c \<Longrightarrow> isWordUnit c"
  "isLetterUnit c \<Longrightarrow> c \<noteq> 40 \<and> c \<noteq> 41 \<and> c \<noteq> 955 \<and> c \<noteq> 92"
  by (auto simp: isLetterUnit_def isWordUnit_def)

lemma word_not_whitespace: "isWordUnit c \<Longrightarrow> \<not> isWhitespaceUnit c"
  by (auto simp: isLetterUnit_def isWordUnit_def isWhitespaceUnit_def)

lemma mark_facts:
  "\<not> isWhitespaceUnit 40" "\<not> isWhitespaceUnit 41" "\<not> isWhitespaceUnit 46"
  "\<not> isWhitespaceUnit 955" "isWhitespaceUnit 32"
  "\<not> isWordUnit 40" "\<not> isWordUnit 41" "\<not> isWordUnit 46" "\<not> isWordUnit 32"
  "\<not> isLetterUnit 955" "\<not> isLetterUnit 40"
  by (simp_all add: isLetterUnit_def isWordUnit_def isWhitespaceUnit_def)

lemma currentChar_here: "currentChar (pre @ c # rest) (length pre) = Some c"
  by (simp add: currentChar_def)

lemma currentChar_end: "currentChar pre (length pre) = None"
  by (simp add: currentChar_def)

lemma hasMore_here: "hasMore (pre @ c # rest) (length pre)"
  by (simp add: hasMore_def)

lemma hasMore_end: "\<not> hasMore pre (length pre)"
  by (simp add: hasMore_def)

lemma skipWhitespace_stay:
  "\<not> isWhitespace (currentChar source position) \<Longrightarrow> skipWhitespace source position = position"
  by (subst skipWhitespace.simps) simp

lemma skipWhitespace_here:
  "\<not> isWhitespaceUnit c \<Longrightarrow> skipWhitespace (pre @ c # rest) (length pre) = length pre"
  by (rule skipWhitespace_stay) (simp add: currentChar_here)

lemma skipWhitespace_end: "skipWhitespace pre (length pre) = length pre"
  by (rule skipWhitespace_stay) (simp add: currentChar_end)

lemma skipWhitespace_blank:
  assumes "\<not> isWhitespaceUnit c"
  shows "skipWhitespace (pre @ 32 # c # rest) (length pre) = Suc (length pre)"
proof -
  have "skipWhitespace (pre @ 32 # c # rest) (length pre)
          = skipWhitespace (pre @ 32 # c # rest) (Suc (length pre))"
    by (subst skipWhitespace.simps) (simp add: currentChar_here hasMore_here mark_facts)
  also have "\<dots> = skipWhitespace ((pre @ [32]) @ c # rest) (length (pre @ [32]))"
    by simp
  also have "\<dots> = length (pre @ [32])"
    using assms by (rule skipWhitespace_here)
  finally show ?thesis by simp
qed

lemma scanVariableName_word:
  assumes "list_all isWordUnit name" "rest = [] \<or> \<not> isWordUnit (hd rest)"
  shows "scanVariableName (pre @ name @ rest) (length pre) = length pre + length name"
  using assms
proof (induction name arbitrary: pre)
  case Nil
  show ?case
  proof (cases rest)
    case Nil
    then show ?thesis
      by (subst scanVariableName.simps) (simp add: hasMore_end)
  next
    case (Cons c cs)
    with Nil.prems show ?thesis
      by (subst scanVariableName.simps) (simp add: currentChar_here)
  qed
next
  case (Cons c name)
  have "scanVariableName (pre @ (c # name) @ rest) (length pre)
          = scanVariableName (pre @ (c # name) @ rest) (Suc (length pre))"
    using Cons.prems
    by (subst scanVariableName.simps) (simp add: currentChar_def hasMore_def)
  also have "\<dots> = scanVariableName ((pre @ [c]) @ name @ rest) (length (pre @ [c]))"
    by simp
  also have "\<dots> = length (pre @ [c]) + length name"
    using Cons.prems by (intro Cons.IH) simp_all
  finally show ?case by simp
qed

lemma parseVariableName_valid:
  assumes "validName name" "rest = [] \<or> \<not> isWordUnit (hd rest)"
  shows "parseVariableName (pre @ name @ rest) (length pre)
           = Inr (name, length pre + length name)"
proof -
  from assms(1) obtain c cs where name: "name = c # cs"
    and c: "isLetterUnit c" and cs: "list_all isWordUnit cs"
    by (cases name) auto
  then have all: "list_all isWordUnit name" by (simp add: letter_facts)
  have scan: "scanVariableName (pre @ name @ rest) (length pre) = length pre + length name"
    using all assms(2) by (rule scanVariableName_word)
  have "slice (pre @ name @ rest) (length pre) (length pre + length name) = name"
    by (simp add: slice_def)
  with scan name show ?thesis
    by (simp add: parseVariableName_def Let_def)
qed

lemma currentChar_at:
  "source = pre @ c # rest \<Longrightarrow> position = length pre \<Longrightarrow> currentChar source position = Some c"
  by (simp add: currentChar_here)

lemma skipWhitespace_at:
  "source = pre @ c # rest \<Longrightarrow> position = length pre \<Longrightarrow> \<not> isWhitespaceUnit c \<Longrightarrow>
     skipWhitespace source position = position"
  by (simp add: skipWhitespace_here)

lemma parseExprLoop_stop:
  assumes "source = pre @ rest" "position = length pre" "rest = [] \<or> hd rest = 41"
  shows "parseExprLoop source result position = Inr (result, position)"
proof (cases rest)
  case Nil
  with assms have "skipWhitespace source position = position" "\<not> hasMore source position"
    by (simp_all add: skipWhitespace_end hasMore_end)
  then show ?thesis
    by (subst parseExprLoop.simps) (simp add: Let_def)
next
  case (Cons c cs)
  with assms have c: "c = 41" by simp
  have "skipWhitespace source position = position"
    using assms Cons c by (simp add: skipWhitespace_here mark_facts)
  moreover have "currentChar source position = Some 41"
    using assms Cons c by (simp add: currentChar_here)
  ultimately show ?thesis
    by (subst parseExprLoop.simps) (simp add: Let_def)
qed

lemma parseExpr_single:
  assumes "\<not> isWhitespace (currentChar source position)"
    and "parseAtom source position = Inr (e, p1)"
    and "parseExprLoop source e p1 = Inr (e, p1)"
  shows "parseExpr source position = Inr (e, p1)"
  using assms
  by (subst parseExpr.simps) (simp add: skipWhitespace_stay Let_def)

lemma parseAtom_variable:
  assumes "source = pre @ name @ rest" "position = length pre"
    and "validName name" "rest = [] \<or> \<not> isWordUnit (hd rest)"
  shows "parseAtom source position = Inr (Variable name False None, position + length name)"
proof -
  from assms(3) obtain c cs where name: "name = c # cs" and c: "isLetterUnit c"
    by (cases name) auto
  have src: "source = pre @ c # (cs @ rest)" using assms(1) name by simp
  have skip: "skipWhitespace source position = position"
    by (rule skipWhitespace_at [OF src assms(2)])
       (use c in \<open>auto dest: letter_facts word_not_whitespace\<close>)
  have char: "currentChar source position = Some c"
    using src assms(2) by (rule currentChar_at)
  have pv: "parseVariableName source position = Inr (name, position + length name)"
    using assms by (simp add: parseVariableName_valid)
  show ?thesis
    using skip char pv c letter_facts(2) [OF c]
    by (subst parseAtom.simps) (simp add: Let_def)
qed

lemma parseAtom_paren:
  assumes "source = pre @ 40 # s @ 41 # rest" "position = length pre"
    and "parseExpr source (Suc position) = Inr (e, Suc position + length s)"
  shows "parseAtom source position = Inr (e, position + length s + 2)"
proof -
  have skip: "skipWhitespace source position = position"
    by (rule skipWhitespace_at [OF assms(1,2)]) (simp add: mark_facts)
  have char: "currentChar source position = Some 40"
    using assms(1,2) by (rule currentChar_at)
  have src: "source = (pre @ 40 # s) @ 41 # rest" using assms(1) by simp
  have pos: "Suc position + length s = length (pre @ 40 # s)" using assms(2) by simp
  have skip2: "skipWhitespace source (Suc position + length s) = Suc position + length s"
    by (rule skipWhitespace_at [OF src pos]) (simp add: mark_facts)
  have char2: "currentChar source (Suc position + length s) = Some 41"
    using src pos by (rule currentChar_at)
  show ?thesis
    using skip char assms(3) skip2 char2
    by (subst parseAtom.simps) (simp add: Let_def)
qed

lemma parseAtom_lambda:
  assumes "source = pre @ 955 # param @ 46 # rest" "position = length pre"
    and "validName param"
    and "parseExpr source (position + length param + 2) = Inr (body, q)"
  shows "parseAtom source position = Inr (Abstraction param body False None, q)"
proof -
  from assms(3) obtain c cs where param: "param = c # cs" and c: "isLetterUnit c"
    by (cases param) auto
  have skip: "skipWhitespace source position = position"
    by (rule skipWhitespace_at [OF assms(1,2)]) (simp add: mark_facts)
  have char: "currentChar source position = Some 955"
    using assms(1,2) by (rule currentChar_at)
  have src1: "source = (pre @ [955]) @ c # (cs @ 46 # rest)" using assms(1) param by simp
  have skip1: "skipWhitespace source (Suc position) = Suc position"
    by (rule skipWhitespace_at [OF src1])
       (use assms(2) c in \<open>auto dest: letter_facts word_not_whitespace\<close>)
  have src2: "source = (pre @ [955]) @ param @ (46 # rest)" using assms(1) by simp
  have pv: "parseVariableName source (Suc position)
              = Inr (param, Suc position + length param)"
    using parseVariableName_valid [of param "46 # rest" "pre @ [955]"] assms(2,3) src2
    by (simp add: mark_facts)
  have src3: "source = (pre @ 955 # param) @ 46 # rest" using assms(1) by simp
  have pos3: "Suc position + length param = length (pre @ 955 # param)"
    using assms(2) by simp
  have skip3: "skipWhitespace source (Suc position + length param)
                 = Suc position + length param"
    by (rule skipWhitespace_at [OF src3 pos3]) (simp add: mark_facts)
  have char3: "currentChar source (Suc position + length param) = Some 46"
    using src3 pos3 by (rule currentChar_at)
  have next3: "Suc (Suc position + length param) = position + length param + 2" by simp
  show ?thesis
    using skip char skip1 pv skip3 char3 assms(4)
    by (subst parseAtom.simps) (simp add: Let_def next3)
qed

lemma parseExpr_pair:
  assumes src: "source = pre @ fs @ 32 # as @ 41 # rest" and pos: "position = length pre"
    and fhead: "fs = fc # fcs" "\<not> isWhitespaceUnit fc"
    and ahead: "as = ac # acs" "ac = 40 \<or> isLetterUnit ac"
    and pf: "parseAtom source position = Inr (f', position + length fs)"
    and pa: "parseAtom source (Suc (position + length fs))
               = Inr (a', Suc (position + length fs) + length as)"
  shows "parseExpr source position
           = Inr (Application f' a' None False None, Suc (position + length fs) + length as)"
proof -
  let ?p1 = "position + length fs"
  let ?p2 = "Suc ?p1 + length as"
  have anw: "\<not> isWhitespaceUnit ac"
    using ahead(2) by (auto simp: mark_facts dest: letter_facts word_not_whitespace)
  have src0: "source = pre @ fc # (fcs @ 32 # as @ 41 # rest)" using src fhead(1) by simp
  have skip0: "skipWhitespace source position = position"
    by (rule skipWhitespace_at [OF src0 pos fhead(2)])
  have src1: "source = (pre @ fs) @ 32 # ac # (acs @ 41 # rest)" using src ahead(1) by simp
  have skip1: "skipWhitespace source ?p1 = Suc ?p1"
    using skipWhitespace_blank [OF anw, of "pre @ fs" "acs @ 41 # rest"] src1 pos by simp
  have src2: "source = (pre @ fs @ [32]) @ ac # (acs @ 41 # rest)" using src ahead(1) by simp
  have pos2: "Suc ?p1 = length (pre @ fs @ [32])" using pos by simp
  have char2: "currentChar source (Suc ?p1) = Some ac"
    by (rule currentChar_at [OF src2 pos2])
  have more2: "hasMore source (Suc ?p1)"
    using src2 pos2 by (simp add: hasMore_def)
  have cont: "ac \<noteq> 41" "isAtomStart (Some ac)"
    using ahead(2) by (auto simp: isAtomStart_def dest: letter_facts)
  have src3: "source = (pre @ fs @ 32 # as) @ (41 # rest)" using src by simp
  have pos3: "?p2 = length (pre @ fs @ 32 # as)" using pos by simp
  have stop: "parseExprLoop source (Application f' a' None False None) ?p2
                = Inr (Application f' a' None False None, ?p2)"
    by (rule parseExprLoop_stop [OF src3 pos3]) simp
  have loop: "parseExprLoop source f' ?p1 = Inr (Application f' a' None False None, ?p2)"
    using skip1 char2 more2 cont pa stop
    by (subst parseExprLoop.simps) (simp add: Let_def)
  show ?thesis
    using skip0 pf loop
    by (subst parseExpr.simps) (simp add: Let_def)
qed

lemma atomString_head:
  "wellFormed e \<Longrightarrow> \<exists>c cs. atomString e = c # cs \<and> (c = 40 \<or> isLetterUnit c)"
proof (cases e)
  case (Variable name fs sid)
  assume "wellFormed e"
  with Variable show ?thesis by (cases name) (auto simp: atomString_def)
qed (auto simp: atomString_def Let_def)

lemma toPlainString_head:
  "wellFormed e \<Longrightarrow> \<exists>c cs. toPlainString e = c # cs \<and> \<not> isWhitespaceUnit c"
proof (cases e)
  case (Variable name fs sid)
  assume "wellFormed e"
  with Variable show ?thesis
    by (cases name) (auto dest: letter_facts word_not_whitespace)
qed (auto simp: Let_def mark_facts)

lemma roundtrip_positions:
  "wellFormed a \<Longrightarrow>
     (\<forall>pre rest. rest = [] \<or> hd rest = 41 \<longrightarrow>
        parseExpr (pre @ toPlainString a @ rest) (length pre)
          = Inr (bare a, length pre + length (toPlainString a)))
     \<and> (\<forall>pre rest. rest = [] \<or> \<not> isWordUnit (hd rest) \<longrightarrow>
        parseAtom (pre @ atomString a @ rest) (length pre)
          = Inr (bare a, length pre + length (atomString a)))"
proof (induction a)
  case (Variable name fs sid)
  have atom: "parseAtom (pre @ name @ rest) (length pre)
                = Inr (Variable name False None, length pre + length name)"
    if "rest = [] \<or> \<not> isWordUnit (hd rest)" for pre rest
    using Variable that by (intro parseAtom_variable) simp_all
  have expr: "parseExpr (pre @ name @ rest) (length pre)
                = Inr (Variable name False None, length pre + length name)"
    if stop: "rest = [] \<or> hd rest = 41" for pre rest
  proof (rule parseExpr_single)
    from Variable obtain c cs where "name = c # cs" "isLetterUnit c"
      by (cases name) auto
    then show "\<not> isWhitespace (currentChar (pre @ name @ rest) (length pre))"
      by (auto simp: currentChar_here dest: letter_facts word_not_whitespace)
    show "parseAtom (pre @ name @ rest) (length pre)
            = Inr (Variable name False None, length pre + length name)"
      using stop by (intro atom) (auto simp: mark_facts)
    show "parseExprLoop (pre @ name @ rest) (Variable name False None)
            (length pre + length name)
            = Inr (Variable name False None, length pre + length name)"
      using stop by (intro parseExprLoop_stop [of _ "pre @ name" rest]) simp_all
  qed
  show ?case using atom expr by (simp add: atomString_def)
next
  case (Abstraction param body fs sid)
  let ?s = "toPlainString (Abstraction param body fs sid)"
  let ?b = "Abstraction param (bare body) False None"
  from Abstraction.prems have vp: "validName param" and wb: "wellFormed body" by simp_all
  have ihb: "parseExpr (pre @ toPlainString body @ rest) (length pre)
               = Inr (bare body, length pre + length (toPlainString body))"
    if "rest = [] \<or> hd rest = 41" for pre rest
    using Abstraction.IH [OF wb] that by blast
  have expr: "parseExpr (pre @ ?s @ rest) (length pre) = Inr (?b, length pre + length ?s)"
    if stop: "rest = [] \<or> hd rest = 41" for pre rest
  proof (rule parseExpr_single)
    show "\<not> isWhitespace (currentChar (pre @ ?s @ rest) (length pre))"
      by (simp add: currentChar_here mark_facts)
    have inner: "parseExpr (pre @ ?s @ rest) (length pre + length param + 2)
                   = Inr (bare body, length pre + length ?s)"
      using ihb [OF stop, of "pre @ 955 # param @ [46]"] by simp
    show "parseAtom (pre @ ?s @ rest) (length pre) = Inr (?b, length pre + length ?s)"
      by (rule parseAtom_lambda [OF _ refl vp inner, of "toPlainString body @ rest"]) simp
    show "parseExprLoop (pre @ ?s @ rest) ?b (length pre + length ?s)
            = Inr (?b, length pre + length ?s)"
      using stop by (intro parseExprLoop_stop [of _ "pre @ ?s" rest]) simp_all
  qed
  have atom: "parseAtom (pre @ (40 # ?s @ [41]) @ rest) (length pre)
                = Inr (?b, length pre + length (40 # ?s @ [41]))" for pre rest
  proof -
    have "parseExpr ((pre @ [40]) @ ?s @ (41 # rest)) (length (pre @ [40]))
            = Inr (?b, length (pre @ [40]) + length ?s)"
      by (rule expr) simp
    then have inner: "parseExpr (pre @ 40 # ?s @ 41 # rest) (Suc (length pre))
            = Inr (?b, Suc (length pre) + length ?s)"
      by simp
    have "parseAtom (pre @ 40 # ?s @ 41 # rest) (length pre)
            = Inr (?b, length pre + length ?s + 2)"
      by (rule parseAtom_paren [OF refl refl inner])
    then show ?thesis by simp
  qed
  show ?case using expr atom by (simp add: atomString_def)
next
  case (Application func arg i fs sid)
  let ?fs = "atomString func" and ?as = "atomString arg"
  let ?s = "toPlainString (Application func arg i fs sid)"
  let ?b = "Application (bare func) (bare arg) None False None"
  from Application.prems have wf: "wellFormed func" and wa: "wellFormed arg" by simp_all
  have s: "?s = 40 # ?fs @ 32 # ?as @ [41]"
    by (simp add: Let_def atomString_def)
  from atomString_head [OF wf] obtain fc fcs where
    fh: "?fs = fc # fcs" "fc = 40 \<or> isLetterUnit fc" by blast
  from atomString_head [OF wa] obtain ac acs where
    ah: "?as = ac # acs" "ac = 40 \<or> isLetterUnit ac" by blast
  have fnw: "\<not> isWhitespaceUnit fc"
    using fh(2) by (auto simp: mark_facts dest: letter_facts word_not_whitespace)
  have ihf: "parseAtom (pre @ ?fs @ rest) (length pre)
               = Inr (bare func, length pre + length ?fs)"
    if "rest = [] \<or> \<not> isWordUnit (hd rest)" for pre rest
    using Application.IH(1) [OF wf] that by blast
  have iha: "parseAtom (pre @ ?as @ rest) (length pre)
               = Inr (bare arg, length pre + length ?as)"
    if "rest = [] \<or> \<not> isWordUnit (hd rest)" for pre rest
    using Application.IH(2) [OF wa] that by blast
  have atom: "parseAtom (pre @ ?s @ rest) (length pre) = Inr (?b, length pre + length ?s)"
    for pre rest
  proof -
    let ?src = "pre @ 40 # (?fs @ 32 # ?as) @ 41 # rest"
    have src: "?src = (pre @ [40]) @ ?fs @ 32 # ?as @ 41 # rest" by simp
    have pf: "parseAtom ?src (length (pre @ [40]))
                = Inr (bare func, length (pre @ [40]) + length ?fs)"
      using ihf [of "32 # ?as @ 41 # rest" "pre @ [40]"] by (simp add: mark_facts)
    have pa: "parseAtom ?src (Suc (length (pre @ [40]) + length ?fs))
                = Inr (bare arg, Suc (length (pre @ [40]) + length ?fs) + length ?as)"
      using iha [of "41 # rest" "pre @ 40 # ?fs @ [32]"] by (simp add: mark_facts)
    have "parseExpr ?src (length (pre @ [40]))
            = Inr (?b, Suc (length (pre @ [40]) + length ?fs) + length ?as)"
      by (rule parseExpr_pair [OF src refl fh(1) fnw ah pf pa])
    then have inner: "parseExpr ?src (Suc (length pre))
            = Inr (?b, Suc (length pre) + length (?fs @ 32 # ?as))"
      by simp
    have "parseAtom ?src (length pre) = Inr (?b, length pre + length (?fs @ 32 # ?as) + 2)"
      by (rule parseAtom_paren [OF refl refl inner])
    then show ?thesis by (simp add: s del: toPlainString.simps)
  qed
  have expr: "parseExpr (pre @ ?s @ rest) (length pre) = Inr (?b, length pre + length ?s)"
    if stop: "rest = [] \<or> hd rest = 41" for pre rest
  proof (rule parseExpr_single)
    show "\<not> isWhitespace (currentChar (pre @ ?s @ rest) (length pre))"
      by (simp add: s currentChar_here mark_facts del: toPlainString.simps)
    show "parseAtom (pre @ ?s @ rest) (length pre) = Inr (?b, length pre + length ?s)"
      by (rule atom)
    show "parseExprLoop (pre @ ?s @ rest) ?b (length pre + length ?s)
            = Inr (?b, length pre + length ?s)"
      using stop by (intro parseExprLoop_stop [of _ "pre @ ?s" rest]) simp_all
  qed
  show ?case using expr atom by (simp add: atomString_def del: toPlainString.simps)
qed

lemma validName_last:
  assumes "validName name"
  shows "name \<noteq> [] \<and> isWordUnit (last name)"
proof -
  from assms obtain c cs where name: "name = c # cs" and c: "isLetterUnit c"
    and cs: "list_all isWordUnit cs"
    by (cases name) auto
  show ?thesis
  proof (cases "cs = []")
    case True
    with name c show ?thesis by (simp add: letter_facts)
  next
    case False
    then have "last cs \<in> set cs" by simp
    with cs have "isWordUnit (last cs)" by (simp add: list_all_iff)
    with name False show ?thesis by simp
  qed
qed

lemma toPlainString_last:
  "wellFormed e \<Longrightarrow> toPlainString e \<noteq> [] \<and> \<not> isWhitespaceUnit (last (toPlainString e))"
proof (induction e)
  case (Variable name fs sid)
  then show ?case using validName_last [of name] by (auto dest: word_not_whitespace)
next
  case (Abstraction param body fs sid)
  then show ?case by simp
next
  case (Application func arg i fs sid)
  show ?case by (simp add: Let_def mark_facts)
qed

lemma trim_id:
  assumes "s = c # cs" "\<not> isWhitespaceUnit c" "\<not> isWhitespaceUnit (last s)"
  shows "trim s = s"
proof -
  have "dropWhile isWhitespaceUnit s = s" using assms(1,2) by simp
  moreover have "dropWhile isWhitespaceUnit (rev s) = rev s"
  proof -
    have "s = butlast s @ [last s]" using assms(1) by simp
    then have r: "rev s = last s # rev (butlast s)"
      using rev_append [of "butlast s" "[last s]"] by simp
    have "dropWhile isWhitespaceUnit (last s # rev (butlast s)) = last s # rev (butlast s)"
      using assms(3) by simp
    then show ?thesis by (simp only: r)
  qed
  ultimately show ?thesis by (simp add: trim_def)
qed

text \<open>
  C2. Round trip: for every tree built from the constructors over valid variable names,
  \<open>parse(toPlainString(a))\<close> returns a tree, which is \<open>a\<close> with \<open>fromSubstitution\<close>,
  \<open>sourceId\<close> and the application ids at their defaults: the same structure when these
  fields are ignored.
\<close>

theorem parse_toPlainString:
  assumes "wellFormed a"
  shows "parse (toPlainString a) = Inr (bare a) \<and> termOf (bare a) = termOf a"
proof -
  let ?s = "toPlainString a"
  from toPlainString_head [OF assms] obtain c cs where
    s: "?s = c # cs" and c: "\<not> isWhitespaceUnit c" by blast
  have "trim ?s = ?s"
    using s c toPlainString_last [OF assms] by (intro trim_id) simp_all
  moreover have "parseExpr ([] @ ?s @ []) (length ([] :: jsstring))
                   = Inr (bare a, length ([] :: jsstring) + length ?s)"
    using roundtrip_positions [OF assms] by blast
  then have "parseExpr ?s 0 = Inr (bare a, length ?s)" by simp
  moreover have "skipWhitespace ?s (length ?s) = length ?s" by (rule skipWhitespace_end)
  ultimately have "parse ?s = Inr (bare a)"
    by (simp add: parse_def parserParse_def Let_def hasMore_end)
  then show ?thesis by (simp add: termOf_bare)
qed

theorem parse_toPlainString_witness:
  "wellFormed identityOnY
   \<and> toPlainString identityOnY = js ''(('' @ [955] @ js ''x.x) y)''
   \<and> parse (js ''(('' @ [955] @ js ''x.x) y)'') =
       Inr (Application (Abstraction (js ''x'') (Variable (js ''x'') False None) False None)
              (Variable (js ''y'') False None) None False None)"
proof -
  have w: "wellFormed identityOnY"
    by (simp add: identityOnY_def js_def isLetterUnit_def)
  have s: "toPlainString identityOnY = js ''(('' @ [955] @ js ''x.x) y)''"
    by (simp add: identityOnY_def js_def)
  have b: "bare identityOnY =
       Application (Abstraction (js ''x'') (Variable (js ''x'') False None) False None)
              (Variable (js ''y'') False None) None False None"
    by (simp add: identityOnY_def)
  show ?thesis
    using w parse_toPlainString [OF w] unfolding s b by simp
qed

subsection \<open>Capture-avoiding substitution\<close>

lemma freshName_notin: "freshName name avoid |\<notin>| avoid"
  by (induction name avoid rule: freshName.induct) (subst freshName.simps, simp)

lemma freeVariables_clone: "freeVariables (clone r m s) = freeVariables r"
  by (induction r) simp_all

lemma freeVariables_substitute:
  "freeVariables (substitute e v r m s) =
     (if v |\<in>| freeVariables e then (freeVariables e |-| {|v|}) |\<union>| freeVariables r
      else freeVariables e)"
proof (induction e v r m s rule: substitute.induct)
  case (1 name fs sid varName replacement markAsSubstituted srcId)
  show ?case by (simp add: substitute.simps freeVariables_clone)
next
  case (2 param body fs sid varName replacement markAsSubstituted srcId)
  show ?case
  proof (cases "param = varName")
    case True
    then show ?thesis by (simp add: substitute.simps)
  next
    case ne: False
    show ?thesis
    proof (cases "param |\<in>| freeVariables replacement")
      case False
      have "freeVariables (substitute (Abstraction param body fs sid) varName replacement
              markAsSubstituted srcId)
            = freeVariables (substitute body varName replacement markAsSubstituted srcId)
                |-| {|param|}"
        using ne False by (simp add: substitute.simps)
      then show ?thesis
        using "2.IH"(3) [OF ne False] ne False by auto
    next
      case True
      define allFree where
        "allFree = finsert varName (freeVariables replacement |\<union>| freeVariables body)"
      define newParam where "newParam = freshName param allFree"
      define renamedBody where
        "renamedBody = substitute body param (Variable newParam False None) False None"
      have fresh: "newParam |\<notin>| allFree"
        unfolding newParam_def by (rule freshName_notin)
      then have nf: "newParam \<noteq> varName" "newParam |\<notin>| freeVariables replacement"
        "newParam |\<notin>| freeVariables body"
        by (auto simp: allFree_def)
      have rb: "freeVariables renamedBody =
          (if param |\<in>| freeVariables body
           then (freeVariables body |-| {|param|}) |\<union>| {|newParam|}
           else freeVariables body)"
        using "2.IH"(1) [OF ne True allFree_def newParam_def]
        by (simp add: renamedBody_def)
      have res: "freeVariables (substitute (Abstraction param body fs sid) varName replacement
              markAsSubstituted srcId)
            = freeVariables (substitute renamedBody varName replacement markAsSubstituted srcId)
                |-| {|newParam|}"
        using ne True
        by (simp add: substitute.simps Let_def allFree_def newParam_def renamedBody_def)
      have ih2: "freeVariables (substitute renamedBody varName replacement markAsSubstituted srcId)
            = (if varName |\<in>| freeVariables renamedBody
               then (freeVariables renamedBody |-| {|varName|}) |\<union>| freeVariables replacement
               else freeVariables renamedBody)"
        by (rule "2.IH"(2) [OF ne True allFree_def newParam_def renamedBody_def])
      show ?thesis
        unfolding res ih2 rb using ne True nf by auto
    qed
  qed
next
  case (3 func arg i fs sid varName replacement markAsSubstituted srcId)
  then show ?case by (auto simp: substitute.simps)
qed

lemma namelessOf_clone: "namelessOf binders (clone r m s) = namelessOf binders r"
  by (induction r arbitrary: binders) simp_all

lemma namelessOf_cong:
  "(\<And>x. x |\<in>| freeVariables e \<Longrightarrow> indexOf binders x = indexOf binders' x) \<Longrightarrow>
     namelessOf binders e = namelessOf binders' e"
proof (induction e arbitrary: binders binders')
  case (Variable name fs sid)
  then show ?case by simp
next
  case (Abstraction param body fs sid)
  have "namelessOf (param # binders) body = namelessOf (param # binders') body"
  proof (rule Abstraction.IH)
    fix x assume "x |\<in>| freeVariables body"
    then show "indexOf (param # binders) x = indexOf (param # binders') x"
      using Abstraction.prems [of x] by simp
  qed
  then show ?case by simp
next
  case (Application func arg i fs sid)
  have "namelessOf binders func = namelessOf binders' func"
    by (rule Application.IH(1)) (simp add: Application.prems)
  moreover have "namelessOf binders arg = namelessOf binders' arg"
    by (rule Application.IH(2)) (simp add: Application.prems)
  ultimately show ?case by simp
qed

lemma indexOf_None: "indexOf binders x = None \<longleftrightarrow> x \<notin> set binders"
  by (induction binders) auto

lemma indexOf_here: "x \<notin> set inner \<Longrightarrow> indexOf (inner @ x # outer) x = Some (length inner)"
  by (induction inner) auto

lemma indexOf_skip:
  "x \<noteq> y \<Longrightarrow> x \<noteq> z \<Longrightarrow> indexOf (inner @ y # outer) x = indexOf (inner @ z # outer) x"
  by (induction inner) auto

lemma replaceFree_bound:
  "v \<in> set binders \<Longrightarrow> replaceFree v u (namelessOf binders e) = namelessOf binders e"
proof (induction e arbitrary: binders)
  case (Variable name fs sid)
  show ?case
  proof (cases "indexOf binders name")
    case None
    then have "name \<notin> set binders" by (simp add: indexOf_None)
    with Variable have "name \<noteq> v" by auto
    with None show ?thesis by simp
  next
    case (Some k)
    then show ?thesis by simp
  qed
qed simp_all

lemma substitute_rename:
  assumes "r = Variable n f s0"
    and "p \<notin> set inner" "n \<notin> set inner" "n |\<notin>| freeVariables e"
  shows "namelessOf (inner @ n # outer) (substitute e p r m s)
           = namelessOf (inner @ p # outer) e"
  using assms
proof (induction e p r m s arbitrary: n f s0 inner outer rule: substitute.induct)
  case (1 name fs sid varName replacement markAsSubstituted srcId)
  show ?case
  proof (cases "name = varName")
    case True
    then show ?thesis
      using "1.prems" by (simp add: substitute.simps indexOf_here)
  next
    case False
    moreover have "name \<noteq> n" using "1.prems" by auto
    ultimately show ?thesis
      using indexOf_skip [of name n varName inner outer]
      by (simp add: substitute.simps)
  qed
next
  case (2 param body fs sid varName replacement markAsSubstituted srcId)
  note r = \<open>replacement = Variable n f s0\<close>
  show ?case
  proof (cases "param = varName")
    case True
    have "namelessOf (inner @ n # outer) (Abstraction param body fs sid)
            = namelessOf (inner @ varName # outer) (Abstraction param body fs sid)"
    proof (rule namelessOf_cong)
      fix x assume "x |\<in>| freeVariables (Abstraction param body fs sid)"
      then have "x \<noteq> n" "x \<noteq> varName" using "2.prems"(4) True by auto
      then show "indexOf (inner @ n # outer) x = indexOf (inner @ varName # outer) x"
        by (rule indexOf_skip)
    qed
    with True show ?thesis by (simp add: substitute.simps)
  next
    case ne: False
    show ?thesis
    proof (cases "param |\<in>| freeVariables replacement")
      case False
      then have pn: "param \<noteq> n" using r by simp
      have "namelessOf ((param # inner) @ n # outer)
              (substitute body varName replacement markAsSubstituted srcId)
            = namelessOf ((param # inner) @ varName # outer) body"
        using "2.prems" ne pn
        by (intro "2.IH"(3) [OF ne False r]) auto
      then show ?thesis using ne False by (simp add: substitute.simps)
    next
      case True
      then have pn: "param = n" using r by simp
      define allFree where
        "allFree = finsert varName (freeVariables replacement |\<union>| freeVariables body)"
      define newParam where "newParam = freshName param allFree"
      define renamedBody where
        "renamedBody = substitute body param (Variable newParam False None) False None"
      have "newParam |\<notin>| allFree"
        unfolding newParam_def by (rule freshName_notin)
      then have nf: "newParam \<noteq> varName" "newParam \<noteq> n" "newParam |\<notin>| freeVariables body"
        by (auto simp: allFree_def r)
      have res: "substitute (Abstraction param body fs sid) varName replacement
                   markAsSubstituted srcId
                 = Abstraction newParam
                     (substitute renamedBody varName replacement markAsSubstituted srcId) fs sid"
        using ne True
        by (simp add: substitute.simps Let_def allFree_def newParam_def renamedBody_def)
      have inner_rename: "namelessOf ([] @ newParam # (inner @ varName # outer)) renamedBody
            = namelessOf ([] @ param # (inner @ varName # outer)) body"
        unfolding renamedBody_def
        by (rule "2.IH"(1) [OF ne True allFree_def newParam_def refl]) (simp_all add: nf)
      have "n |\<notin>| freeVariables renamedBody"
        using nf pn by (simp add: renamedBody_def freeVariables_substitute)
      then have outer_rename: "namelessOf ((newParam # inner) @ n # outer)
              (substitute renamedBody varName replacement markAsSubstituted srcId)
            = namelessOf ((newParam # inner) @ varName # outer) renamedBody"
        using "2.prems" nf
        by (intro "2.IH"(2) [OF ne True allFree_def newParam_def renamedBody_def r]) auto
      show ?thesis
        using inner_rename outer_rename by (simp add: res)
    qed
  qed
next
  case (3 func arg i fs sid varName replacement markAsSubstituted srcId)
  have "namelessOf (inner @ n # outer) (substitute func varName replacement markAsSubstituted srcId)
          = namelessOf (inner @ varName # outer) func"
    using "3.prems" by (intro "3.IH"(1)) auto
  moreover have "namelessOf (inner @ n # outer)
            (substitute arg varName replacement markAsSubstituted srcId)
          = namelessOf (inner @ varName # outer) arg"
    using "3.prems" by (intro "3.IH"(2)) auto
  ultimately show ?case by (simp add: substitute.simps)
qed

lemma namelessOf_unbound:
  assumes "\<And>x. x \<in> set binders \<Longrightarrow> x |\<notin>| freeVariables r"
  shows "namelessOf binders r = namelessOf [] r"
proof (rule namelessOf_cong)
  fix x assume "x |\<in>| freeVariables r"
  with assms have "x \<notin> set binders" by blast
  then show "indexOf binders x = indexOf [] x" by (simp add: indexOf_None)
qed

lemma substitute_nameless:
  assumes "v \<notin> set binders" and "\<And>x. x \<in> set binders \<Longrightarrow> x |\<notin>| freeVariables r"
  shows "namelessOf binders (substitute e v r m s)
           = replaceFree v (namelessOf [] r) (namelessOf binders e)"
  using assms
proof (induction e v r m s arbitrary: binders rule: substitute.induct)
  case (1 name fs sid varName replacement markAsSubstituted srcId)
  show ?case
  proof (cases "name = varName")
    case True
    have "indexOf binders varName = None" using "1.prems"(1) by (simp add: indexOf_None)
    moreover have "namelessOf binders replacement = namelessOf [] replacement"
      by (rule namelessOf_unbound) (rule "1.prems"(2))
    ultimately show ?thesis
      using True by (simp add: substitute.simps namelessOf_clone)
  next
    case False
    then show ?thesis
      by (cases "indexOf binders name") (simp_all add: substitute.simps)
  qed
next
  case (2 param body fs sid varName replacement markAsSubstituted srcId)
  show ?case
  proof (cases "param = varName")
    case True
    then show ?thesis
      by (simp add: substitute.simps replaceFree_bound)
  next
    case ne: False
    show ?thesis
    proof (cases "param |\<in>| freeVariables replacement")
      case False
      have "namelessOf (param # binders)
              (substitute body varName replacement markAsSubstituted srcId)
            = replaceFree varName (namelessOf [] replacement) (namelessOf (param # binders) body)"
        using "2.prems" ne False
        by (intro "2.IH"(3) [OF ne False]) auto
      then show ?thesis using ne False by (simp add: substitute.simps)
    next
      case True
      define allFree where
        "allFree = finsert varName (freeVariables replacement |\<union>| freeVariables body)"
      define newParam where "newParam = freshName param allFree"
      define renamedBody where
        "renamedBody = substitute body param (Variable newParam False None) False None"
      have "newParam |\<notin>| allFree"
        unfolding newParam_def by (rule freshName_notin)
      then have nf: "newParam \<noteq> varName" "newParam |\<notin>| freeVariables replacement"
        "newParam |\<notin>| freeVariables body"
        by (auto simp: allFree_def)
      have res: "substitute (Abstraction param body fs sid) varName replacement
                   markAsSubstituted srcId
                 = Abstraction newParam
                     (substitute renamedBody varName replacement markAsSubstituted srcId) fs sid"
        using ne True
        by (simp add: substitute.simps Let_def allFree_def newParam_def renamedBody_def)
      have renamed: "namelessOf ([] @ newParam # binders) renamedBody
                       = namelessOf ([] @ param # binders) body"
        unfolding renamedBody_def
        by (rule substitute_rename [OF refl]) (simp_all add: nf)
      have "namelessOf (newParam # binders)
              (substitute renamedBody varName replacement markAsSubstituted srcId)
            = replaceFree varName (namelessOf [] replacement)
                (namelessOf (newParam # binders) renamedBody)"
        using "2.prems" nf
        by (intro "2.IH"(2) [OF ne True allFree_def newParam_def renamedBody_def]) auto
      with renamed show ?thesis by (simp add: res)
    qed
  qed
next
  case (3 func arg i fs sid varName replacement markAsSubstituted srcId)
  have "namelessOf binders (substitute func varName replacement markAsSubstituted srcId)
          = replaceFree varName (namelessOf [] replacement) (namelessOf binders func)"
    using "3.prems" by (intro "3.IH"(1)) auto
  moreover have "namelessOf binders (substitute arg varName replacement markAsSubstituted srcId)
          = replaceFree varName (namelessOf [] replacement) (namelessOf binders arg)"
    using "3.prems" by (intro "3.IH"(2)) auto
  ultimately show ?case by (simp add: substitute.simps)
qed

text \<open>
  C1. Substitution avoids capture: for every expression, variable name and replacement,
  the binding structure of \<open>substitute(expr, varName, replacement, \<dots>)\<close> is that of \<open>expr\<close>
  with the replacement put at the free occurrences of \<open>varName\<close>, every free variable of the
  replacement still free there: no abstraction of the target binds it. In particular,
  reducing \<open>(\<lambda>x.(\<lambda>x'.x x')) x'\<close> renames the inner parameter to \<open>x''\<close> (by \<open>freshName\<close>) and
  yields \<open>\<lambda>x''.x' x''\<close>, in which the substituted \<open>x'\<close> is free.
\<close>

theorem substitute_capture_avoiding:
  "namelessOf [] (substitute e v r m s) = replaceFree v (namelessOf [] r) (namelessOf [] e)
   \<and> namelessOf [] (reduceAt captureExample (Some 1))
       = NLam (NApp (Free (js ''x'' @ [39])) (Bound 0))
   \<and> reduceAt captureExample (Some 1) =
       Abstraction (js ''x'' @ [39, 39])
         (Application (Variable (js ''x'' @ [39]) True (Some 1))
            (Variable (js ''x'' @ [39, 39]) False None) None False None)
         False None"
proof (intro conjI)
  show "namelessOf [] (substitute e v r m s)
          = replaceFree v (namelessOf [] r) (namelessOf [] e)"
    by (rule substitute_nameless) simp_all
  show "namelessOf [] (reduceAt captureExample (Some 1))
          = NLam (NApp (Free (js ''x'' @ [39])) (Bound 0))"
    by (simp add: captureExample_def substitute.simps freshName.simps js_def Let_def)
  show "reduceAt captureExample (Some 1) =
       Abstraction (js ''x'' @ [39, 39])
         (Application (Variable (js ''x'' @ [39]) True (Some 1))
            (Variable (js ''x'' @ [39, 39]) False None) None False None)
         False None"
    by (simp add: captureExample_def substitute.simps freshName.simps js_def Let_def)
qed

end
